theory Spec2Isabelle
  imports Complex_Main "HOL-Library.Multiset"
begin

section \<open>Shared JavaScript library behaviour\<close>

text \<open>
  Numbers that the report engine counts, ranks and sums (volumes, positions, backlink
  counts, credits) are integers; quotients of them are exact rationals. Strings are
  character lists. \<open>String.prototype.includes\<close> tests whether the argument occurs as a
  contiguous run of characters of the receiver.
\<close>

fun startsWith :: "string \<Rightarrow> string \<Rightarrow> bool" where
  "startsWith s [] = True"
| "startsWith [] (c # p) = False"
| "startsWith (d # s) (c # p) = (d = c \<and> startsWith s p)"

fun str_includes :: "string \<Rightarrow> string \<Rightarrow> bool" where
  "str_includes [] p = (p = [])"
| "str_includes (d # s) p = (startsWith (d # s) p \<or> str_includes s p)"

text \<open>
  \<open>Array.prototype.sort\<close> with a comparator \<open>cmp\<close>: the element \<open>a\<close> goes before \<open>b\<close>
  when \<open>cmp a b < 0\<close>, after it when \<open>cmp a b > 0\<close>, and the sort is stable (elements
  that compare equal keep their relative order). For a consistent comparator the result
  is determined by these rules; it is computed here by stable insertion from the right.
\<close>

fun sort_insert :: "('a \<Rightarrow> 'a \<Rightarrow> int) \<Rightarrow> 'a \<Rightarrow> 'a list \<Rightarrow> 'a list" where
  "sort_insert cmp a [] = [a]"
| "sort_insert cmp a (b # bs) =
     (if cmp a b \<le> 0 then a # b # bs else b # sort_insert cmp a bs)"

fun array_sort :: "('a \<Rightarrow> 'a \<Rightarrow> int) \<Rightarrow> 'a list \<Rightarrow> 'a list" where
  "array_sort cmp [] = []"
| "array_sort cmp (a # as) = sort_insert cmp a (array_sort cmp as)"

text \<open>
  \<open>xs.slice(0, n)\<close> for an integer \<open>n\<close>: a non-negative \<open>n\<close> keeps the first \<open>n\<close>
  elements, a negative \<open>n\<close> counts from the end of the array.
\<close>

definition slice0 :: "int \<Rightarrow> 'a list \<Rightarrow> 'a list" where
  "slice0 n xs = (if 0 \<le> n then take (nat n) xs else take (length xs - nat (- n)) xs)"

text \<open>
  A settled promise either rejected or resolved with a value; \<open>p.catch(() => d)\<close>
  turns a rejection into the default \<open>d\<close>.
\<close>

datatype 'a outcome = Rejected | Resolved 'a

definition orElse :: "'a outcome \<Rightarrow> 'a \<Rightarrow> 'a" where
  "orElse p d = (case p of Rejected \<Rightarrow> d | Resolved v \<Rightarrow> v)"

text \<open>
  A JavaScript \<open>Map\<close> iterates in insertion order and keeps each key once: it is a list
  of key-value pairs with distinct keys, read by \<open>map_of\<close>. \<open>map_set\<close> replaces the
  value of a present key in place and appends an absent key. Mutating the object that
  \<open>get\<close> returned is \<open>map_set\<close> under the same key.
\<close>

fun map_set :: "'k \<Rightarrow> 'v \<Rightarrow> ('k \<times> 'v) list \<Rightarrow> ('k \<times> 'v) list" where
  "map_set k v [] = [(k, v)]"
| "map_set k v ((k', v') # m) = (if k' = k then (k, v) # m else (k', v') # map_set k v m)"

text \<open>
  \<open>Math.round\<close> rounds to the nearest integer, halves upwards, which is \<open>round\<close> of the
  library. The mean of an empty list is \<open>0 / 0\<close> and \<open>Math.min()\<close> of no arguments is
  \<open>Infinity\<close>: \<open>None\<close> stands for these non-finite results.
\<close>

definition Math_round_mean :: "int list \<Rightarrow> int option" where
  "Math_round_mean ps =
     (if ps = [] then None
      else Some (round (rat_of_int (sum_list ps) / rat_of_nat (length ps))))"

definition Math_min :: "int list \<Rightarrow> int option" where
  "Math_min ps = (case ps of [] \<Rightarrow> None | p # rest \<Rightarrow> Some (fold min rest p))"

section \<open>Credit accounting (lib/credits.ts)\<close>

record creditCost =
  perRequest :: int
  perRecord :: int

definition CREDIT_COSTS :: "(string \<times> creditCost) list" where
  "CREDIT_COSTS =
   [ (''/backlinks/summary'', \<lparr>perRequest = 0, perRecord = 100\<rparr>),
     (''/backlinks/all'', \<lparr>perRequest = 0, perRecord = 1\<rparr>),
     (''/backlinks/anchors'', \<lparr>perRequest = 0, perRecord = 1\<rparr>),
     (''/backlinks/count'', \<lparr>perRequest = 0, perRecord = 10\<rparr>),
     (''/backlinks/authority'', \<lparr>perRequest = 0, perRecord = 100\<rparr>),
     (''/backlinks/authority/page'', \<lparr>perRequest = 0, perRecord = 10\<rparr>),
     (''/backlinks/authority/domain'', \<lparr>perRequest = 0, perRecord = 10\<rparr>),
     (''/backlinks/authority/domain/distribution'', \<lparr>perRequest = 0, perRecord = 1\<rparr>),
     (''/backlinks/referring-ips'', \<lparr>perRequest = 0, perRecord = 1\<rparr>),
     (''/backlinks/referring-ips/count'', \<lparr>perRequest = 0, perRecord = 10\<rparr>),
     (''/backlinks/metrics'', \<lparr>perRequest = 0, perRecord = 100\<rparr>),
     (''/backlinks/history'', \<lparr>perRequest = 0, perRecord = 1\<rparr>),
     (''/backlinks/history/count'', \<lparr>perRequest = 0, perRecord = 100\<rparr>),
     (''/backlinks/history/cumulative'', \<lparr>perRequest = 0, perRecord = 100\<rparr>),
     (''/backlinks/refdomains/history'', \<lparr>perRequest = 0, perRecord = 1\<rparr>),
     (''/backlinks/refdomains/history/count'', \<lparr>perRequest = 0, perRecord = 100\<rparr>),
     (''/backlinks/indexed-pages'', \<lparr>perRequest = 0, perRecord = 1\<rparr>),
     (''/backlinks/raw'', \<lparr>perRequest = 0, perRecord = 1\<rparr>),
     (''/backlinks/refdomains'', \<lparr>perRequest = 0, perRecord = 1\<rparr>),
     (''/backlinks/refdomains/count'', \<lparr>perRequest = 0, perRecord = 10\<rparr>),
     (''/backlinks/referring-subnets/count'', \<lparr>perRequest = 0, perRecord = 10\<rparr>),
     (''/backlinks/ips'', \<lparr>perRequest = 0, perRecord = 1\<rparr>),
     (''/domain/overview/db'', \<lparr>perRequest = 100, perRecord = 0\<rparr>),
     (''/domain/overview/worldwide'', \<lparr>perRequest = 100, perRecord = 0\<rparr>),
     (''/domain/overview/worldwide/url'', \<lparr>perRequest = 100, perRecord = 0\<rparr>),
     (''/domain/overview/history'', \<lparr>perRequest = 100, perRecord = 0\<rparr>),
     (''/domain/keywords'', \<lparr>perRequest = 100, perRecord = 0\<rparr>),
     (''/domain/pages'', \<lparr>perRequest = 100, perRecord = 0\<rparr>),
     (''/domain/subdomains'', \<lparr>perRequest = 100, perRecord = 0\<rparr>),
     (''/domain/ads'', \<lparr>perRequest = 100, perRecord = 0\<rparr>),
     (''/domain/competitors'', \<lparr>perRequest = 100, perRecord = 0\<rparr>),
     (''/domain/keywords/comparison'', \<lparr>perRequest = 100, perRecord = 0\<rparr>),
     (''/ai-search/overview'', \<lparr>perRequest = 1800, perRecord = 0\<rparr>),
     (''/ai-search/overview/leaderboard'', \<lparr>perRequest = 7500, perRecord = 0\<rparr>),
     (''/ai-search/discover-brand'', \<lparr>perRequest = 100, perRecord = 0\<rparr>),
     (''/ai-search/prompts-by-target'', \<lparr>perRequest = 0, perRecord = 200\<rparr>),
     (''/ai-search/prompts-by-brand'', \<lparr>perRequest = 0, perRecord = 200\<rparr>),
     (''/keywords/export'', \<lparr>perRequest = 0, perRecord = 10\<rparr>),
     (''/keywords/related'', \<lparr>perRequest = 0, perRecord = 10\<rparr>),
     (''/keywords/similar'', \<lparr>perRequest = 0, perRecord = 10\<rparr>),
     (''/keywords/questions'', \<lparr>perRequest = 0, perRecord = 10\<rparr>),
     (''/keywords/long-tail'', \<lparr>perRequest = 0, perRecord = 1\<rparr>),
     (''/account/subscription'', \<lparr>perRequest = 0, perRecord = 0\<rparr>) ]"

text \<open>
  \<open>calculateCredits\<close> reads the module constant \<open>CREDIT_COSTS\<close>. Its body is given over
  a table argument (\<open>Object.keys\<close> lists the keys in the order they were written) and
  then instantiated with the constant. \<open>!match\<close> holds for \<open>undefined\<close> (no match) and for
  the empty string. The looked-up key always comes from the table itself.
\<close>

definition creditsFrom :: "(string \<times> creditCost) list \<Rightarrow> string \<Rightarrow> int \<Rightarrow> int" where
  "creditsFrom table endpoint recordCount =
     (let matches = array_sort (\<lambda>a b. int (length b) - int (length a))
                      (filter (\<lambda>pattern. str_includes endpoint pattern) (map fst table))
      in case matches of
           [] \<Rightarrow> 0
         | match # _ \<Rightarrow>
             if match = [] then 0
             else (case map_of table match of
                     None \<Rightarrow> 0
                   | Some costs \<Rightarrow> perRequest costs + perRecord costs * recordCount))"

definition calculateCredits :: "string \<Rightarrow> int \<Rightarrow> int" where
  "calculateCredits endpoint recordCount = creditsFrom CREDIT_COSTS endpoint recordCount"

text \<open>
  A response payload is a JSON value (or \<open>undefined\<close>); an object is the list of its
  own properties, each key once. \<open>obj[key]\<close> is the property's value when present.
\<close>

datatype json =
    JUndefined
  | JNull
  | JBool bool
  | JNum int
  | JStr string
  | JArr "json list"
  | JObj "(string \<times> json) list"

definition wrapperKeys :: "string list" where
  "wrapperKeys = [''data'', ''pages'', ''keywords'', ''backlinks'', ''refdomains'', ''prompts'',
                  ''summary'', ''leaderboard'', ''history'', ''ips'', ''histogram'']"

fun countWrapped :: "(string \<times> json) list \<Rightarrow> string list \<Rightarrow> nat" where
  "countWrapped obj [] = 1"
| "countWrapped obj (key # keys) =
     (case map_of obj key of
        Some (JArr items) \<Rightarrow> length items
      | _ \<Rightarrow> countWrapped obj keys)"

fun countRecords :: "json \<Rightarrow> nat" where
  "countRecords (JArr items) = length items"
| "countRecords (JObj obj) = countWrapped obj wrapperKeys"
| "countRecords _ = 1"

section \<open>Multi-competitor aggregation (SeRankingClient)\<close>

text \<open>
  Each aggregator first fetches one result list per competitor; a rejected fetch counts
  as the empty list. The fetch functions are the client's normalizing methods, given here
  as arguments that return a settled promise. The three folds below are the loops of the
  source over \<open>gapResults\<close>, \<open>overlapResults\<close> and \<open>refDomainResults\<close>, with a \<open>Map\<close>
  as accumulator. A \<open>{domain, position}\<close> or \<open>{domain, backlinks}\<close> object is a pair.
  On lists of well-formed records nothing in the body throws, so the \<open>catch\<close> branch
  of the enclosing \<open>try\<close> block (which returns the empty list) is never taken.
\<close>

subsection \<open>Keyword gaps\<close>

record KeywordGap =
  kg_keyword :: string
  kg_volume :: int
  kg_difficulty :: int
  kg_competitor_position :: int
  kg_our_position :: "int option"

record gapItem =
  gi_keyword :: string
  gi_volume :: int
  gi_difficulty :: int
  gi_competitors :: "(string \<times> int) list"

record AggregatedKeywordGap =
  akg_keyword :: string
  akg_volume :: int
  akg_difficulty :: int
  akg_competitorCount :: nat
  akg_competitors :: "(string \<times> int) list"
  akg_avgPosition :: "int option"
  akg_bestPosition :: "int option"

definition gapFold :: "string \<Rightarrow> (string \<times> gapItem) list \<Rightarrow> KeywordGap \<Rightarrow> (string \<times> gapItem) list" where
  "gapFold competitor keywordMap gap =
     (case map_of keywordMap (kg_keyword gap) of
        Some existing \<Rightarrow>
          map_set (kg_keyword gap)
            (existing\<lparr> gi_competitors := gi_competitors existing @ [(competitor, kg_competitor_position gap)],
                       gi_volume := max (gi_volume existing) (kg_volume gap),
                       gi_difficulty := max (gi_difficulty existing) (kg_difficulty gap) \<rparr>)
            keywordMap
      | None \<Rightarrow>
          map_set (kg_keyword gap)
            \<lparr> gi_keyword = kg_keyword gap,
              gi_volume = kg_volume gap,
              gi_difficulty = kg_difficulty gap,
              gi_competitors = [(competitor, kg_competitor_position gap)] \<rparr>
            keywordMap)"

definition gapEntry :: "gapItem \<Rightarrow> AggregatedKeywordGap" where
  "gapEntry item =
     \<lparr> akg_keyword = gi_keyword item,
       akg_volume = gi_volume item,
       akg_difficulty = gi_difficulty item,
       akg_competitorCount = length (gi_competitors item),
       akg_competitors = gi_competitors item,
       akg_avgPosition = Math_round_mean (map snd (gi_competitors item)),
       akg_bestPosition = Math_min (map snd (gi_competitors item)) \<rparr>"

definition gapOrder :: "AggregatedKeywordGap \<Rightarrow> AggregatedKeywordGap \<Rightarrow> int" where
  "gapOrder a b =
     (if akg_competitorCount b \<noteq> akg_competitorCount a
      then int (akg_competitorCount b) - int (akg_competitorCount a)
      else akg_volume b - akg_volume a)"

definition keywordGapEntries :: "(string \<times> KeywordGap list) list \<Rightarrow> AggregatedKeywordGap list" where
  "keywordGapEntries gapResults =
     (let keywordMap = foldl (\<lambda>m (competitor, gaps). foldl (gapFold competitor) m gaps) [] gapResults
      in array_sort gapOrder (map gapEntry (map snd keywordMap)))"

definition aggregateKeywordGaps :: "(string \<times> KeywordGap list) list \<Rightarrow> int \<Rightarrow> AggregatedKeywordGap list" where
  "aggregateKeywordGaps gapResults limit = slice0 limit (keywordGapEntries gapResults)"

definition getMultiCompetitorKeywordGaps ::
  "(string \<Rightarrow> string \<Rightarrow> string \<Rightarrow> KeywordGap list outcome) \<Rightarrow> string \<Rightarrow> string list \<Rightarrow> string \<Rightarrow> int
     \<Rightarrow> AggregatedKeywordGap list" where
  "getMultiCompetitorKeywordGaps getDomainKeywordsComparison ourDomain competitors source limit =
     (let gapResults = map (\<lambda>competitor.
            (competitor, orElse (getDomainKeywordsComparison competitor ourDomain source) [])) competitors
      in aggregateKeywordGaps gapResults limit)"

subsection \<open>Keyword overlaps\<close>

record KeywordOverlap =
  ko_keyword :: string
  ko_volume :: int
  ko_ourPosition :: int
  ko_competitorPosition :: int

record overlapItem =
  oi_keyword :: string
  oi_volume :: int
  oi_ourPosition :: int
  oi_competitors :: "(string \<times> int) list"

record AggregatedKeywordOverlap =
  ako_keyword :: string
  ako_volume :: int
  ako_ourPosition :: int
  ako_competitorCount :: nat
  ako_competitors :: "(string \<times> int) list"
  ako_avgCompetitorPosition :: "int option"
  ako_positionGap :: "int option"

definition overlapFold ::
  "string \<Rightarrow> (string \<times> overlapItem) list \<Rightarrow> KeywordOverlap \<Rightarrow> (string \<times> overlapItem) list" where
  "overlapFold competitor keywordMap overlap =
     (if ko_competitorPosition overlap < ko_ourPosition overlap
      then (case map_of keywordMap (ko_keyword overlap) of
              Some existing \<Rightarrow>
                map_set (ko_keyword overlap)
                  (existing\<lparr> oi_competitors :=
                               oi_competitors existing @ [(competitor, ko_competitorPosition overlap)],
                             oi_volume := max (oi_volume existing) (ko_volume overlap) \<rparr>)
                  keywordMap
            | None \<Rightarrow>
                map_set (ko_keyword overlap)
                  \<lparr> oi_keyword = ko_keyword overlap,
                    oi_volume = ko_volume overlap,
                    oi_ourPosition = ko_ourPosition overlap,
                    oi_competitors = [(competitor, ko_competitorPosition overlap)] \<rparr>
                  keywordMap)
      else keywordMap)"

definition overlapEntry :: "overlapItem \<Rightarrow> AggregatedKeywordOverlap" where
  "overlapEntry item =
     (let avgCompetitorPosition = Math_round_mean (map snd (oi_competitors item))
      in \<lparr> ako_keyword = oi_keyword item,
           ako_volume = oi_volume item,
           ako_ourPosition = oi_ourPosition item,
           ako_competitorCount = length (oi_competitors item),
           ako_competitors = oi_competitors item,
           ako_avgCompetitorPosition = avgCompetitorPosition,
           ako_positionGap = map_option (\<lambda>avg. oi_ourPosition item - avg) avgCompetitorPosition \<rparr>)"

definition overlapOrder :: "AggregatedKeywordOverlap \<Rightarrow> AggregatedKeywordOverlap \<Rightarrow> int" where
  "overlapOrder a b =
     (if ako_competitorCount b \<noteq> ako_competitorCount a
      then int (ako_competitorCount b) - int (ako_competitorCount a)
      else ako_volume b - ako_volume a)"

definition keywordOverlapEntries ::
  "(string \<times> KeywordOverlap list) list \<Rightarrow> AggregatedKeywordOverlap list" where
  "keywordOverlapEntries overlapResults =
     (let keywordMap = foldl (\<lambda>m (competitor, overlaps). foldl (overlapFold competitor) m overlaps) []
                         overlapResults
      in array_sort overlapOrder (map overlapEntry (map snd keywordMap)))"

definition aggregateKeywordOverlaps ::
  "(string \<times> KeywordOverlap list) list \<Rightarrow> int \<Rightarrow> AggregatedKeywordOverlap list" where
  "aggregateKeywordOverlaps overlapResults limit = slice0 limit (keywordOverlapEntries overlapResults)"

definition getMultiCompetitorKeywordOverlaps ::
  "(string \<Rightarrow> string \<Rightarrow> string \<Rightarrow> nat \<Rightarrow> KeywordOverlap list outcome) \<Rightarrow> string \<Rightarrow> string list
     \<Rightarrow> string \<Rightarrow> int \<Rightarrow> AggregatedKeywordOverlap list" where
  "getMultiCompetitorKeywordOverlaps getKeywordOverlap ourDomain competitors source limit =
     (let overlapResults = map (\<lambda>competitor.
            (competitor, orElse (getKeywordOverlap ourDomain competitor source 100) [])) competitors
      in aggregateKeywordOverlaps overlapResults limit)"

subsection \<open>Backlink gaps\<close>

record RefDomain =
  rd_domain :: string
  rd_backlinks :: int
  rd_domain_inlink_rank :: int
  rd_first_seen :: string

record backlinkItem =
  bi_domain :: string
  bi_domainInlinkRank :: int
  bi_competitors :: "(string \<times> int) list"
  bi_totalBacklinks :: int

record AggregatedBacklinkGap =
  abg_domain :: string
  abg_domainInlinkRank :: int
  abg_competitorCount :: nat
  abg_totalBacklinksToCompetitors :: int
  abg_competitors :: "(string \<times> int) list"

definition backlinkFold ::
  "string set \<Rightarrow> string \<Rightarrow> (string \<times> backlinkItem) list \<Rightarrow> RefDomain \<Rightarrow> (string \<times> backlinkItem) list" where
  "backlinkFold ourDomainSet competitor domainMap ref =
     (if rd_domain ref \<in> ourDomainSet then domainMap
      else (case map_of domainMap (rd_domain ref) of
              Some existing \<Rightarrow>
                map_set (rd_domain ref)
                  (existing\<lparr> bi_competitors := bi_competitors existing @ [(competitor, rd_backlinks ref)],
                             bi_totalBacklinks := bi_totalBacklinks existing + rd_backlinks ref,
                             bi_domainInlinkRank :=
                               max (bi_domainInlinkRank existing) (rd_domain_inlink_rank ref) \<rparr>)
                  domainMap
            | None \<Rightarrow>
                map_set (rd_domain ref)
                  \<lparr> bi_domain = rd_domain ref,
                    bi_domainInlinkRank = rd_domain_inlink_rank ref,
                    bi_competitors = [(competitor, rd_backlinks ref)],
                    bi_totalBacklinks = rd_backlinks ref \<rparr>
                  domainMap))"

definition backlinkEntry :: "backlinkItem \<Rightarrow> AggregatedBacklinkGap" where
  "backlinkEntry item =
     \<lparr> abg_domain = bi_domain item,
       abg_domainInlinkRank = bi_domainInlinkRank item,
       abg_competitorCount = length (bi_competitors item),
       abg_totalBacklinksToCompetitors = bi_totalBacklinks item,
       abg_competitors = bi_competitors item \<rparr>"

definition backlinkOrder :: "AggregatedBacklinkGap \<Rightarrow> AggregatedBacklinkGap \<Rightarrow> int" where
  "backlinkOrder a b =
     (if abg_competitorCount b \<noteq> abg_competitorCount a
      then int (abg_competitorCount b) - int (abg_competitorCount a)
      else abg_domainInlinkRank b - abg_domainInlinkRank a)"

definition aggregateBacklinkGaps ::
  "string set \<Rightarrow> (string \<times> RefDomain list) list \<Rightarrow> int \<Rightarrow> AggregatedBacklinkGap list" where
  "aggregateBacklinkGaps ourDomainSet refDomainResults limit =
     (let domainMap = foldl (\<lambda>m (competitor, refDomains).
                               foldl (backlinkFold ourDomainSet competitor) m refDomains) []
                        refDomainResults
      in slice0 limit (array_sort backlinkOrder (map backlinkEntry (map snd domainMap))))"

definition getMultiCompetitorBacklinkGaps ::
  "(string \<Rightarrow> nat \<Rightarrow> RefDomain list outcome) \<Rightarrow> string \<Rightarrow> string list \<Rightarrow> int
     \<Rightarrow> AggregatedBacklinkGap list" where
  "getMultiCompetitorBacklinkGaps getBacklinksRefDomains ourDomain competitors limit =
     (let ourRefDomains = orElse (getBacklinksRefDomains ourDomain 200) [];
          ourDomainSet = set (map rd_domain ourRefDomains);
          refDomainResults = map (\<lambda>competitor.
            (competitor, orElse (getBacklinksRefDomains competitor 100) [])) competitors
      in aggregateBacklinkGaps ourDomainSet refDomainResults limit)"

subsection \<open>Notions used to state the aggregation properties\<close>

text \<open>
  \<open>contributions\<close> lists the (competitor, record) pairs in the order the nested loops
  visit them. \<open>upsert\<close> is the step the three folds have in common: skip a record that is
  not admitted, merge it into the entry of its key, or start a new entry. The
  \<open>Group\<close> predicates say what an accumulated entry holds after the records \<open>xs\<close> of
  its key.
\<close>

definition contributions :: "(string \<times> 'a list) list \<Rightarrow> (string \<times> 'a) list" where
  "contributions results = concat (map (\<lambda>(competitor, items). map (Pair competitor) items) results)"

definition upsert :: "('x \<Rightarrow> bool) \<Rightarrow> ('x \<Rightarrow> 'k) \<Rightarrow> ('x \<Rightarrow> 'v) \<Rightarrow> ('v \<Rightarrow> 'x \<Rightarrow> 'v)
    \<Rightarrow> ('k \<times> 'v) list \<Rightarrow> 'x \<Rightarrow> ('k \<times> 'v) list" where
  "upsert admit key init merge m x =
     (if admit x
      then (case map_of m (key x) of
              Some e \<Rightarrow> map_set (key x) (merge e x) m
            | None \<Rightarrow> map_set (key x) (init x) m)
      else m)"

definition gapGroup :: "string \<Rightarrow> gapItem \<Rightarrow> (string \<times> KeywordGap) list \<Rightarrow> bool" where
  "gapGroup k e xs \<longleftrightarrow>
     gi_keyword e = k
     \<and> gi_competitors e = map (\<lambda>(c, g). (c, kg_competitor_position g)) xs
     \<and> gi_volume e = Max (set (map (kg_volume \<circ> snd) xs))
     \<and> gi_difficulty e = Max (set (map (kg_difficulty \<circ> snd) xs))"

definition overlapGroup :: "string \<Rightarrow> overlapItem \<Rightarrow> (string \<times> KeywordOverlap) list \<Rightarrow> bool" where
  "overlapGroup k e xs \<longleftrightarrow>
     oi_keyword e = k
     \<and> oi_competitors e = map (\<lambda>(c, ov). (c, ko_competitorPosition ov)) xs
     \<and> oi_volume e = Max (set (map (ko_volume \<circ> snd) xs))
     \<and> oi_ourPosition e = ko_ourPosition (snd (hd xs))"

definition backlinkGroup :: "string \<Rightarrow> backlinkItem \<Rightarrow> (string \<times> RefDomain) list \<Rightarrow> bool" where
  "backlinkGroup k e xs \<longleftrightarrow>
     bi_domain e = k
     \<and> bi_competitors e = map (\<lambda>(c, r). (c, rd_backlinks r)) xs
     \<and> bi_domainInlinkRank e = Max (set (map (rd_domain_inlink_rank \<circ> snd) xs))
     \<and> bi_totalBacklinks e = sum_list (map (rd_backlinks \<circ> snd) xs)"

subsection \<open>Example inputs\<close>

definition gapsExample :: "(string \<times> KeywordGap list) list" where
  "gapsExample =
     [ (''a.com'', [\<lparr> kg_keyword = ''buy shoes'', kg_volume = 1000, kg_difficulty = 30,
                       kg_competitor_position = 5, kg_our_position = None \<rparr>]),
       (''b.com'', [\<lparr> kg_keyword = ''buy shoes'', kg_volume = 1200, kg_difficulty = 35,
                       kg_competitor_position = 2, kg_our_position = None \<rparr>]) ]"

definition overlapsExample :: "(string \<times> KeywordOverlap list) list" where
  "overlapsExample =
     [ (''a.com'', [\<lparr> ko_keyword = ''buy shoes'', ko_volume = 900, ko_ourPosition = 8,
                       ko_competitorPosition = 2 \<rparr>,
                    \<lparr> ko_keyword = ''red shoes'', ko_volume = 500, ko_ourPosition = 3,
                       ko_competitorPosition = 5 \<rparr>]),
       (''b.com'', [\<lparr> ko_keyword = ''buy shoes'', ko_volume = 1000, ko_ourPosition = 8,
                       ko_competitorPosition = 9 \<rparr>]),
       (''c.com'', [\<lparr> ko_keyword = ''buy shoes'', ko_volume = 950, ko_ourPosition = 8,
                       ko_competitorPosition = 5 \<rparr>]) ]"

definition overlapClash :: "(string \<times> KeywordOverlap list) list" where
  "overlapClash =
     [ (''a.com'', [\<lparr> ko_keyword = ''buy shoes'', ko_volume = 1000, ko_ourPosition = 3,
                       ko_competitorPosition = 2 \<rparr>]),
       (''b.com'', [\<lparr> ko_keyword = ''buy shoes'', ko_volume = 1000, ko_ourPosition = 10,
                       ko_competitorPosition = 5 \<rparr>]) ]"

definition refDomainsExample :: "(string \<times> RefDomain list) list" where
  "refDomainsExample =
     [ (''a.com'', [\<lparr> rd_domain = ''blog.example'', rd_backlinks = 4, rd_domain_inlink_rank = 50,
                       rd_first_seen = ''2024-01-01'' \<rparr>,
                    \<lparr> rd_domain = ''news.site'', rd_backlinks = 3, rd_domain_inlink_rank = 40,
                       rd_first_seen = ''2024-02-01'' \<rparr>]),
       (''b.com'', [\<lparr> rd_domain = ''news.site'', rd_backlinks = 7, rd_domain_inlink_rank = 60,
                       rd_first_seen = ''2024-03-01'' \<rparr>,
                    \<lparr> rd_domain = ''blog.example'', rd_backlinks = 9, rd_domain_inlink_rank = 55,
                       rd_first_seen = ''2024-04-01'' \<rparr>]) ]"

section \<open>AI prompt deduplication (generateReport)\<close>

text \<open>
  \<open>promptsResults\<close> holds the prompt lists in the order they were requested: for each
  engine the brand-scoped list, then the target-scoped list. \<open>promptStep\<close> is the body of
  the inner loop over one list, \<open>mergePrompts\<close> the two nested loops, and
  \<open>balancedPrompts\<close> the sort of every engine's list followed by the cut to
  \<open>promptsPerEngine\<close> entries. An absent optional field is \<open>None\<close>.
\<close>

datatype promptType = Brand | Link | Brand_link

record AIPrompt =
  ap_prompt :: string
  ap_engine :: string
  ap_type :: promptType
  ap_position :: int
  ap_volume :: "int option"
  ap_answer_snippet :: "string option"
  ap_answer_full :: "string option"
  ap_sources :: "string list option"

text \<open>
  \<open>toLowerCase\<close> maps the letters A to Z to a to z and leaves every other character of
  this 8-bit character type as it is. Only the evaluated examples depend on which
  characters it changes; the general properties hold for any lower-casing function.
\<close>

definition toLowerCase :: "string \<Rightarrow> string" where
  "toLowerCase s =
     map (\<lambda>c. case map_of (zip ''ABCDEFGHIJKLMNOPQRSTUVWXYZ'' ''abcdefghijklmnopqrstuvwxyz'') c of
                 Some l \<Rightarrow> l
               | None \<Rightarrow> c) s"

text \<open>\<open>Array.prototype.findIndex\<close>; \<open>None\<close> is the result \<open>-1\<close>.\<close>

fun findIndex :: "('a \<Rightarrow> bool) \<Rightarrow> 'a list \<Rightarrow> nat option" where
  "findIndex P [] = None"
| "findIndex P (x # xs) = (if P x then Some 0 else map_option Suc (findIndex P xs))"

text \<open>\<open>promptsByEngine.get(engine) || []\<close>.\<close>

definition engineListOf :: "(string \<times> AIPrompt list) list \<Rightarrow> string \<Rightarrow> AIPrompt list" where
  "engineListOf promptsByEngine engine =
     (case map_of promptsByEngine engine of Some engineList \<Rightarrow> engineList | None \<Rightarrow> [])"

definition promptStep :: "(string \<times> AIPrompt list) list \<Rightarrow> AIPrompt \<Rightarrow> (string \<times> AIPrompt list) list" where
  "promptStep promptsByEngine p =
     (let engineList = engineListOf promptsByEngine (ap_engine p);
          existingIndex = findIndex (\<lambda>existing. toLowerCase (ap_prompt existing) = toLowerCase (ap_prompt p))
                            engineList
      in case existingIndex of
           None \<Rightarrow> map_set (ap_engine p) (engineList @ [p]) promptsByEngine
         | Some i \<Rightarrow>
             (let existing = engineList ! i;
                  existingIsBrand = (ap_type existing = Brand \<or> ap_type existing = Brand_link);
                  newIsLink = (ap_type p = Link \<or> ap_type p = Brand_link);
                  existingIsLink = (ap_type existing = Link \<or> ap_type existing = Brand_link);
                  newIsBrand = (ap_type p = Brand \<or> ap_type p = Brand_link)
              in if (existingIsBrand \<and> newIsLink) \<or> (existingIsLink \<and> newIsBrand)
                 then map_set (ap_engine p) (engineList[i := existing\<lparr>ap_type := Brand_link\<rparr>])
                        promptsByEngine
                 else map_set (ap_engine p) engineList promptsByEngine))"








subsection \<open>Example prompts\<close>

definition bestShoesBrand :: AIPrompt where
  "bestShoesBrand = \<lparr> ap_prompt = ''best shoes'', ap_engine = ''x'', ap_type = Brand, ap_position = 1,
      ap_volume = Some 700, ap_answer_snippet = Some ''Try these.'', ap_answer_full = None,
      ap_sources = Some [''shoes.example''] \<rparr>"

definition bestShoesLink :: AIPrompt where
  "bestShoesLink = \<lparr> ap_prompt = ''Best Shoes'', ap_engine = ''x'', ap_type = Link, ap_position = 4,
      ap_volume = Some 900, ap_answer_snippet = None, ap_answer_full = Some ''Long answer'',
      ap_sources = None \<rparr>"

section \<open>Token-bucket rate limiter (class RateLimiter)\<close>

text \<open>
  Timestamps are the millisecond readings of \<open>Date.now()\<close>, given to each operation as
  an argument; token counts are exact rationals. \<open>acquire\<close> is the method up to its
  \<open>await\<close>: it refills, and either consumes a token and returns, or suspends the caller
  for the computed delay (\<open>None\<close> when the refill rate is 0 and the quotient is not
  finite). \<open>resume\<close> is the rest of the method, run when the timer fires. Nothing else
  writes the fields, and no other code runs between two suspension points, so a history
  of the limiter is a list of such events. Every list is admitted here, also those in
  which a caller resumes early or the clock steps back.
\<close>

record RateLimiter =
  tokens :: rat
  maxTokens :: rat
  refillRate :: rat
  lastRefill :: int

definition newRateLimiter :: "rat \<Rightarrow> int \<Rightarrow> RateLimiter" where
  "newRateLimiter requestsPerSecond now =
     \<lparr> tokens = requestsPerSecond,
       maxTokens = requestsPerSecond,
       refillRate = requestsPerSecond / 1000,
       lastRefill = now \<rparr>"

definition refill :: "int \<Rightarrow> RateLimiter \<Rightarrow> RateLimiter" where
  "refill now s =
     (let elapsed = now - lastRefill s
      in s\<lparr> tokens := min (maxTokens s) (tokens s + rat_of_int elapsed * refillRate s),
             lastRefill := now \<rparr>)"

datatype acquireOutcome = Proceed | Suspend "int option"

definition acquire :: "int \<Rightarrow> RateLimiter \<Rightarrow> acquireOutcome \<times> RateLimiter" where
  "acquire now s =
     (let s1 = refill now s
      in if 1 \<le> tokens s1 then (Proceed, s1\<lparr> tokens := tokens s1 - 1 \<rparr>)
         else (Suspend (if refillRate s1 = 0 then None
                        else Some \<lceil>(1 - tokens s1) / refillRate s1\<rceil>), s1))"

definition resume :: "int \<Rightarrow> RateLimiter \<Rightarrow> RateLimiter" where
  "resume now s = s\<lparr> tokens := 0, lastRefill := now \<rparr>"

text \<open>
  The events of a history: a call of \<open>acquire()\<close> and the continuation of a suspended
  call, each with the clock reading it sees. \<open>completes\<close> tells whether the event ends
  an acquisition.
\<close>

datatype limiterEvent = Acquire int | Resume int

fun eventTime :: "limiterEvent \<Rightarrow> int" where
  "eventTime (Acquire now) = now"
| "eventTime (Resume now) = now"

fun limiterStep :: "RateLimiter \<Rightarrow> limiterEvent \<Rightarrow> RateLimiter" where
  "limiterStep s (Acquire now) = snd (acquire now s)"
| "limiterStep s (Resume now) = resume now s"

fun completes :: "RateLimiter \<Rightarrow> limiterEvent \<Rightarrow> bool" where
  "completes s (Acquire now) = (fst (acquire now s) = Proceed)"
| "completes s (Resume now) = True"

definition limiterRun :: "rat \<Rightarrow> int \<Rightarrow> limiterEvent list \<Rightarrow> RateLimiter" where
  "limiterRun requestsPerSecond start events =
     foldl limiterStep (newRateLimiter requestsPerSecond start) events"

subsection \<open>Example history\<close>

definition burst :: "limiterEvent list" where
  "burst = [Acquire 0, Acquire 0, Acquire 0, Acquire 0, Acquire 0, Acquire 0, Resume 200]"

text \<open>
  A history in which the clock steps back: \<open>Date.now()\<close> reads the wall clock, which
  the system may set to an earlier time between two calls.
\<close>

definition clockStepsBack :: "limiterEvent list" where
  "clockStepsBack = [Acquire 1000, Acquire 1000, Acquire 400]"

section \<open>Report generation (generateReport, compileReport, the reports route)\<close>

text \<open>
  The client is the record of what its methods answer: a settled promise for each call.
  For \<open>getBacklinksSummary\<close> and \<open>getDomainOverview\<close> the record holds the answer of the
  underlying request, and the normalizing method is embedded; the other methods are taken
  with their own normalization. A field the provider may omit is an \<open>option\<close>, and
  \<open>x || 0\<close> on it is \<open>orZero\<close>.

  \<open>ReportData\<close> is embedded with the two parts the properties below are about,
  \<open>backlinks.summary\<close> and the \<open>keywords\<close> section, and \<open>generateReport\<close> with the
  fetches and computations that feed them, in the order of the source. Every awaited call
  of \<open>generateReport\<close> carries its own \<open>catch\<close> handler or stands inside a \<open>try\<close>
  block, so no path of it rejects. The reports route passes the report id, a string,
  where \<open>generateReport\<close> expects its options; a string has no \<open>onProgress\<close>, so the
  progress sink is absent and \<open>updateProgress\<close> does nothing.
\<close>

definition orZero :: "int option \<Rightarrow> int" where
  "orZero x = (case x of None \<Rightarrow> 0 | Some n \<Rightarrow> n)"



record BacklinksSummary =
  bs_backlinks :: int
  bs_backlinks_num :: int
  bs_refdomains :: int
  bs_refdomains_num :: int
  bs_subnets :: int
  bs_ips :: int
  bs_dofollow_backlinks :: int
  bs_nofollow_backlinks :: int
  bs_text_backlinks :: int
  bs_image_backlinks :: int
  bs_redirect_backlinks :: int
  bs_canonical_backlinks :: int
  bs_gov_backlinks :: int
  bs_edu_backlinks :: int
  bs_tlds :: "(string \<times> int) list"
  bs_countries :: "(string \<times> int) list"
  bs_top_anchors_by_backlinks :: "(string \<times> int) list"
  bs_top_anchors_by_refdomains :: "(string \<times> int) list"



definition createEmptyBacklinksSummary :: BacklinksSummary where
  "createEmptyBacklinksSummary =
     \<lparr> bs_backlinks = 0, bs_backlinks_num = 0, bs_refdomains = 0, bs_refdomains_num = 0,
       bs_subnets = 0, bs_ips = 0, bs_dofollow_backlinks = 0, bs_nofollow_backlinks = 0,
       bs_text_backlinks = 0, bs_image_backlinks = 0, bs_redirect_backlinks = 0,
       bs_canonical_backlinks = 0, bs_gov_backlinks = 0, bs_edu_backlinks = 0,
       bs_tlds = [], bs_countries = [],
       bs_top_anchors_by_backlinks = [], bs_top_anchors_by_refdomains = [] \<rparr>"

record DomainOverview =
  ov_domain :: string
  ov_traffic :: int
  ov_traffic_cost :: int
  ov_keywords :: int
  ov_keywords_top3 :: int
  ov_keywords_top10 :: int
  ov_keywords_top20 :: int
  ov_keywords_top50 :: int
  ov_keywords_top100 :: int
  ov_ads_keywords :: int

record organicOverview =
  oo_base_domain :: "string option"
  oo_traffic_sum :: "int option"
  oo_price_sum :: "int option"
  oo_keywords_count :: "int option"
  oo_top1_5 :: "int option"
  oo_top6_10 :: "int option"
  oo_top11_20 :: "int option"
  oo_top21_50 :: "int option"
  oo_top51_100 :: "int option"

record overviewResponse =
  or_organic :: "organicOverview option"
  or_adv_keywords_count :: "int option"

definition emptyOrganic :: organicOverview where
  "emptyOrganic = \<lparr> oo_base_domain = None, oo_traffic_sum = None, oo_price_sum = None,
      oo_keywords_count = None, oo_top1_5 = None, oo_top6_10 = None, oo_top11_20 = None,
      oo_top21_50 = None, oo_top51_100 = None \<rparr>"

definition getDomainOverview :: "string \<Rightarrow> overviewResponse \<Rightarrow> DomainOverview" where
  "getDomainOverview domain response =
     (let organic = (case or_organic response of None \<Rightarrow> emptyOrganic | Some organic \<Rightarrow> organic);
          top1_5 = orZero (oo_top1_5 organic);
          top6_10 = orZero (oo_top6_10 organic);
          top11_20 = orZero (oo_top11_20 organic);
          top21_50 = orZero (oo_top21_50 organic);
          top51_100 = orZero (oo_top51_100 organic);
          top3 = round (rat_of_int top1_5 * (6 / 10));
          top10 = top1_5 + top6_10;
          top100 = top10 + top11_20 + top21_50 + top51_100;
          top20 = top10 + top11_20;
          top50 = top20 + top21_50
      in \<lparr> ov_domain = (case oo_base_domain organic of
                           None \<Rightarrow> domain
                         | Some base \<Rightarrow> if base = [] then domain else base),
           ov_traffic = orZero (oo_traffic_sum organic),
           ov_traffic_cost = orZero (oo_price_sum organic),
           ov_keywords = orZero (oo_keywords_count organic),
           ov_keywords_top3 = top3,
           ov_keywords_top10 = top10,
           ov_keywords_top20 = top20,
           ov_keywords_top50 = top50,
           ov_keywords_top100 = top100,
           ov_ads_keywords = orZero (or_adv_keywords_count response) \<rparr>)"

record DomainKeyword =
  dk_keyword :: string
  dk_position :: int
  dk_prev_position :: "int option"
  dk_volume :: int
  dk_cpc :: rat
  dk_competition :: rat
  dk_difficulty :: int
  dk_traffic :: int
  dk_traffic_percent :: rat
  dk_url :: string
  dk_serp_features :: "string list"

record positionDistribution =
  pd_top3 :: int
  pd_top10 :: int
  pd_top20 :: int
  pd_top50 :: int
  pd_top100 :: int

text \<open>
  The constant \<open>positionDistribution\<close> of \<open>compileReport\<close>. The top-N fields of an
  overview are integers, on which \<open>|| 0\<close> changes nothing.
\<close>

definition positionDistribution :: "DomainOverview option \<Rightarrow> DomainKeyword list \<Rightarrow> positionDistribution" where
  "positionDistribution domainOverview allKeywords =
     (case domainOverview of
        Some overview \<Rightarrow>
          \<lparr> pd_top3 = ov_keywords_top3 overview,
            pd_top10 = ov_keywords_top10 overview,
            pd_top20 = ov_keywords_top20 overview,
            pd_top50 = ov_keywords_top50 overview,
            pd_top100 = ov_keywords_top100 overview \<rparr>
      | None \<Rightarrow>
          \<lparr> pd_top3 = int (length (filter (\<lambda>k. dk_position k \<le> 3) allKeywords)),
            pd_top10 = int (length (filter (\<lambda>k. dk_position k \<le> 10) allKeywords)),
            pd_top20 = int (length (filter (\<lambda>k. dk_position k \<le> 20) allKeywords)),
            pd_top50 = int (length (filter (\<lambda>k. dk_position k \<le> 50) allKeywords)),
            pd_top100 = int (length (filter (\<lambda>k. dk_position k \<le> 100) allKeywords)) \<rparr>)"

record DomainHistory =
  dh_date :: string
  dh_year :: int
  dh_month :: int
  dh_traffic :: int
  dh_keywords :: int
  dh_traffic_cost :: int
  dh_top1_5 :: int
  dh_top6_10 :: int
  dh_top11_20 :: int
  dh_top21_50 :: int
  dh_top51_100 :: int

record KeywordSuggestion =
  sg_keyword :: string
  sg_volume :: int
  sg_difficulty :: int
  sg_cpc :: rat
  sg_competition :: rat
  sg_trend :: "int list option"
  sg_currentlyRanking :: "bool option"
  sg_position :: "int option"

record KeywordResearchData =
  kr_seedKeyword :: string
  kr_similarKeywords :: "KeywordSuggestion list"
  kr_relatedKeywords :: "KeywordSuggestion list"
  kr_longTailKeywords :: "KeywordSuggestion list"
  kr_sweetSpotKeywords :: "KeywordSuggestion list"

record DomainPaidKeyword =
  pk_keyword :: string
  pk_position :: int
  pk_prev_position :: "int option"
  pk_volume :: int
  pk_cpc :: rat
  pk_competition :: rat
  pk_traffic :: int
  pk_traffic_percent :: rat
  pk_price :: rat
  pk_url :: string
  pk_snippet_title :: string
  pk_snippet_description :: string
  pk_snippet_display_url :: string
  pk_snippets_count :: int

record positionChanges =
  pc_up :: int
  pc_down :: int
  pc_new :: int
  pc_lost :: int






record keywordsSection =
  ks_total :: int
  ks_topKeywords :: "DomainKeyword list"
  ks_nearPageOne :: "DomainKeyword list"
  ks_positionDistribution :: positionDistribution
  ks_history :: "DomainHistory list"
  ks_positionChanges :: positionChanges
  ks_research :: KeywordResearchData
  ks_domainPaidKeywords :: "DomainPaidKeyword list option"

record ReportData =
  rp_backlinks_summary :: BacklinksSummary
  rp_keywords :: keywordsSection

record CompileReportInput =
  ci_backlinksSummary :: "BacklinksSummary option"
  ci_domainOverview :: "DomainOverview option"
  ci_domainHistory :: "DomainHistory list"
  ci_allKeywords :: "DomainKeyword list"
  ci_totalKeywords :: int
  ci_nearPageOneKeywords :: "DomainKeyword list"
  ci_positionChanges :: positionChanges
  ci_keywordResearch :: KeywordResearchData
  ci_domainPaidKeywords :: "DomainPaidKeyword list"

definition compileReport :: "CompileReportInput \<Rightarrow> ReportData" where
  "compileReport input =
     \<lparr> rp_backlinks_summary =
         (case ci_backlinksSummary input of
            None \<Rightarrow> createEmptyBacklinksSummary
          | Some backlinksSummary \<Rightarrow> backlinksSummary),
       rp_keywords =
         \<lparr> ks_total = ci_totalKeywords input,
           ks_topKeywords = ci_allKeywords input,
           ks_nearPageOne = ci_nearPageOneKeywords input,
           ks_positionDistribution =
             positionDistribution (ci_domainOverview input) (ci_allKeywords input),
           ks_history = ci_domainHistory input,
           ks_positionChanges = ci_positionChanges input,
           ks_research = ci_keywordResearch input,
           ks_domainPaidKeywords =
             (if length (ci_domainPaidKeywords input) > 0 then Some (ci_domainPaidKeywords input)
              else None) \<rparr> \<rparr>"





subsection \<open>The background job of the reports route\<close>







subsection \<open>Notions and examples used to state the report properties\<close>

text \<open>
  \<open>rangeCounts\<close> lists the counts per rank range that the provider's answer supplies,
  \<open>suppliedTopCounts\<close> their running totals: the numbers of keywords at or under rank 5,
  10, 20, 50 and 100.
\<close>

definition rangeCounts :: "overviewResponse \<Rightarrow> int list" where
  "rangeCounts response =
     (case or_organic response of
        None \<Rightarrow> []
      | Some organic \<Rightarrow>
          map orZero [oo_top1_5 organic, oo_top6_10 organic, oo_top11_20 organic,
                      oo_top21_50 organic, oo_top51_100 organic])"

fun runningTotals :: "int \<Rightarrow> int list \<Rightarrow> int list" where
  "runningTotals acc [] = []"
| "runningTotals acc (n # ns) = (acc + n) # runningTotals (acc + n) ns"

definition suppliedTopCounts :: "overviewResponse \<Rightarrow> int list" where
  "suppliedTopCounts response = runningTotals 0 (rangeCounts response)"

definition estimateResponse :: overviewResponse where
  "estimateResponse =
     \<lparr> or_organic = Some \<lparr> oo_base_domain = Some ''example.com'', oo_traffic_sum = Some 1000,
         oo_price_sum = Some 200, oo_keywords_count = Some 53, oo_top1_5 = Some 5,
         oo_top6_10 = Some 7, oo_top11_20 = Some 11, oo_top21_50 = Some 13,
         oo_top51_100 = Some 17 \<rparr>,
       or_adv_keywords_count = None \<rparr>"





section \<open>Properties of the shared library functions\<close>

lemma startsWith_iff: "startsWith s p \<longleftrightarrow> (\<exists>v. s = p @ v)"
  by (induction s p rule: startsWith.induct) auto

lemma str_includes_iff: "str_includes s p \<longleftrightarrow> (\<exists>u v. s = u @ p @ v)"
proof (induction s)
  case Nil
  then show ?case by auto
next
  case (Cons d s)
  show ?case
  proof
    assume "str_includes (d # s) p"
    then consider "startsWith (d # s) p" | "str_includes s p" by auto
    then show "\<exists>u v. d # s = u @ p @ v"
    proof cases
      case 1
      then obtain v where "d # s = p @ v" by (auto simp: startsWith_iff)
      then have "d # s = [] @ p @ v" by simp
      then show ?thesis by blast
    next
      case 2
      then obtain u v where "s = u @ p @ v" using Cons.IH by blast
      then have "d # s = (d # u) @ p @ v" by simp
      then show ?thesis by blast
    qed
  next
    assume "\<exists>u v. d # s = u @ p @ v"
    then obtain u v where uv: "d # s = u @ p @ v" by blast
    show "str_includes (d # s) p"
    proof (cases u)
      case Nil
      with uv have "startsWith (d # s) p" by (auto simp: startsWith_iff)
      then show ?thesis by simp
    next
      case (Cons e u')
      with uv have "s = u' @ p @ v" by simp
      then have "str_includes s p" using Cons.IH by blast
      then show ?thesis by simp
    qed
  qed
qed

lemma mset_sort_insert: "mset (sort_insert cmp a xs) = add_mset a (mset xs)"
  by (induction xs) auto

lemma mset_array_sort: "mset (array_sort cmp xs) = mset xs"
  by (induction xs) (auto simp: mset_sort_insert)

lemma set_array_sort: "set (array_sort cmp xs) = set xs"
  using mset_array_sort [of cmp xs] by (metis set_mset_mset)

lemma distinct_map_array_sort: "distinct (map f (array_sort cmp xs)) = distinct (map f xs)"
proof -
  have "mset (map f (array_sort cmp xs)) = mset (map f xs)"
    by (metis mset_array_sort mset_map)
  then show ?thesis by (rule mset_eq_imp_distinct_iff)
qed

lemma set_sort_insert: "set (sort_insert cmp a xs) = insert a (set xs)"
  by (induction xs) auto

lemma length_sort_insert: "length (sort_insert cmp a xs) = Suc (length xs)"
  by (induction xs) auto

lemma length_array_sort: "length (array_sort cmp xs) = length xs"
  by (induction xs) (auto simp: length_sort_insert)

lemma sorted_sort_insert:
  assumes total: "\<And>a b. cmp a b \<le> 0 \<or> cmp b a \<le> 0"
    and trans: "\<And>a b c. cmp a b \<le> 0 \<Longrightarrow> cmp b c \<le> 0 \<Longrightarrow> cmp a c \<le> 0"
  shows "sorted_wrt (\<lambda>a b. cmp a b \<le> 0) xs \<Longrightarrow> sorted_wrt (\<lambda>a b. cmp a b \<le> 0) (sort_insert cmp x xs)"
proof (induction xs)
  case Nil
  then show ?case by simp
next
  case (Cons b bs)
  show ?case
  proof (cases "cmp x b \<le> 0")
    case True
    then have "\<forall>y\<in>set (b # bs). cmp x y \<le> 0"
      using Cons.prems trans by auto
    then show ?thesis using True Cons.prems by simp
  next
    case False
    then have "cmp b x \<le> 0" using total by blast
    then show ?thesis using False Cons by (auto simp: set_sort_insert)
  qed
qed

lemma sorted_array_sort:
  assumes total: "\<And>a b. cmp a b \<le> 0 \<or> cmp b a \<le> 0"
    and trans: "\<And>a b c. cmp a b \<le> 0 \<Longrightarrow> cmp b c \<le> 0 \<Longrightarrow> cmp a c \<le> 0"
  shows "sorted_wrt (\<lambda>a b. cmp a b \<le> 0) (array_sort cmp xs)"
  by (induction xs) (auto intro: sorted_sort_insert [OF total trans])

lemma sorted_wrt_slice0: "sorted_wrt R xs \<Longrightarrow> sorted_wrt R (slice0 n xs)"
  by (simp add: slice0_def sorted_wrt_take)

lemma set_slice0: "set (slice0 n xs) \<subseteq> set xs"
  by (auto simp: slice0_def dest: in_set_takeD)

lemma map_of_map_set: "map_of (map_set k v m) = (map_of m)(k \<mapsto> v)"
  by (induction m) auto

lemma keys_map_set_old: "k \<in> fst ` set m \<Longrightarrow> map fst (map_set k v m) = map fst m"
  by (induction m) force+

lemma keys_map_set_new: "k \<notin> fst ` set m \<Longrightarrow> map fst (map_set k v m) = map fst m @ [k]"
  by (induction m) auto

lemma keys_map_set:
  "map fst (map_set k v m) = (if k \<in> set (map fst m) then map fst m else map fst m @ [k])"
  using keys_map_set_old [of k m v] keys_map_set_new [of k m v] by simp

lemma distinct_map_set: "distinct (map fst m) \<Longrightarrow> distinct (map fst (map_set k v m))"
  by (simp add: keys_map_set)

lemma Math_min_Min: "ps \<noteq> [] \<Longrightarrow> Math_min ps = Some (Min (set ps))"
proof (cases ps)
  case Nil
  assume "ps \<noteq> []"
  with Nil show ?thesis by simp
next
  case (Cons p rest)
  then show ?thesis using Min.set_eq_fold [of p rest] by (simp add: Math_min_def)
qed

lemma Max_snoc: "xs \<noteq> [] \<Longrightarrow> Max (f ` set (xs @ [x])) = max (Max (f ` set xs)) (f x)"
  for f :: "'a \<Rightarrow> int"
  by (simp add: max.commute)

section \<open>Credit lookup and record counting\<close>

lemma creditsFrom_none:
  assumes "\<forall>p\<in>fst ` set table. \<not> str_includes endpoint p"
  shows "creditsFrom table endpoint n = 0"
proof -
  have "filter (\<lambda>pattern. str_includes endpoint pattern) (map fst table) = []"
    using assms by (auto simp: filter_empty_conv)
  then show ?thesis by (simp add: creditsFrom_def)
qed

lemma creditsFrom_longest:
  assumes some: "\<exists>p\<in>fst ` set table. str_includes endpoint p"
    and nonempty: "[] \<notin> fst ` set table"
  shows "\<exists>p c. (p, c) \<in> set table \<and> str_includes endpoint p
           \<and> (\<forall>q\<in>fst ` set table. str_includes endpoint q \<longrightarrow> length q \<le> length p)
           \<and> creditsFrom table endpoint n = perRequest c + perRecord c * n"
proof -
  let ?cmp = "\<lambda>a b :: string. int (length b) - int (length a)"
  let ?cands = "filter (\<lambda>pattern. str_includes endpoint pattern) (map fst table)"
  let ?matches = "array_sort ?cmp ?cands"
  have set_m: "set ?matches = {p \<in> fst ` set table. str_includes endpoint p}"
    by (auto simp: set_array_sort)
  with some have "?matches \<noteq> []" by (metis (mono_tags, lifting) empty_iff mem_Collect_eq set_empty)
  then obtain m rest where m: "?matches = m # rest" by (cases ?matches) auto
  have "sorted_wrt (\<lambda>a b. ?cmp a b \<le> 0) ?matches"
    by (rule sorted_array_sort) auto
  with m have longest: "\<forall>q\<in>set ?matches. length q \<le> length m" by auto
  have m_in: "m \<in> set ?matches" using m by simp
  then have m_tab: "m \<in> fst ` set table" and m_inc: "str_includes endpoint m"
    using set_m by auto
  from m_tab nonempty have m_ne: "m \<noteq> []" by metis
  from m_tab obtain c where c: "map_of table m = Some c"
    by (metis (no_types, lifting) domD dom_map_of_conv_image_fst)
  then have "(m, c) \<in> set table" by (rule map_of_SomeD)
  moreover have "creditsFrom table endpoint n = perRequest c + perRecord c * n"
    using m m_ne c by (simp add: creditsFrom_def)
  moreover have "\<forall>q\<in>fst ` set table. str_includes endpoint q \<longrightarrow> length q \<le> length m"
    using longest set_m by auto
  ultimately show ?thesis using m_inc by blast
qed

lemma CREDIT_COSTS_nonempty_keys: "[] \<notin> fst ` set CREDIT_COSTS"
  by (simp add: CREDIT_COSTS_def)

text \<open>
  Claim C7. For every endpoint and record count, \<open>calculateCredits\<close> selects a longest
  pattern of the cost table that occurs in the endpoint and returns
  \<open>perRequest + perRecord * recordCount\<close> of its entry; when no pattern occurs in the
  endpoint it returns 0. The entry of \<open>/domain/keywords\<close> (100 per request, 0 per
  record) gives 100 for every record count, and the entry of \<open>/backlinks/summary\<close>
  (0 per request, 100 per record) gives 300 for 3 records.
\<close>

theorem calculateCredits_longest_match:
  "(if \<exists>p\<in>fst ` set CREDIT_COSTS. str_includes endpoint p
    then \<exists>p c. (p, c) \<in> set CREDIT_COSTS \<and> str_includes endpoint p
           \<and> (\<forall>q\<in>fst ` set CREDIT_COSTS. str_includes endpoint q \<longrightarrow> length q \<le> length p)
           \<and> calculateCredits endpoint n = perRequest c + perRecord c * n
    else calculateCredits endpoint n = 0)
   \<and> calculateCredits ''/domain/keywords'' n = 100
   \<and> calculateCredits ''/backlinks/summary'' 3 = 300"
proof -
  have "calculateCredits ''/domain/keywords'' n = 100"
    by (simp add: calculateCredits_def creditsFrom_def CREDIT_COSTS_def)
  moreover have "calculateCredits ''/backlinks/summary'' 3 = 300"
    by (simp add: calculateCredits_def creditsFrom_def CREDIT_COSTS_def)
  moreover have "\<exists>p c. (p, c) \<in> set CREDIT_COSTS \<and> str_includes endpoint p
           \<and> (\<forall>q\<in>fst ` set CREDIT_COSTS. str_includes endpoint q \<longrightarrow> length q \<le> length p)
           \<and> calculateCredits endpoint n = perRequest c + perRecord c * n"
    if "\<exists>p\<in>fst ` set CREDIT_COSTS. str_includes endpoint p"
    unfolding calculateCredits_def
    using creditsFrom_longest [OF that CREDIT_COSTS_nonempty_keys] .
  moreover have "calculateCredits endpoint n = 0"
    if "\<not> (\<exists>p\<in>fst ` set CREDIT_COSTS. str_includes endpoint p)"
    unfolding calculateCredits_def
    using that by (intro creditsFrom_none) blast
  ultimately show ?thesis by presburger
qed

theorem calculateCredits_longest_match_witness:
  "(\<exists>p\<in>fst ` set CREDIT_COSTS. str_includes ''/v1/backlinks/authority/page?x'' p)
   \<and> (\<exists>p c. (p, c) \<in> set CREDIT_COSTS \<and> str_includes ''/v1/backlinks/authority/page?x'' p
           \<and> (\<forall>q\<in>fst ` set CREDIT_COSTS.
                  str_includes ''/v1/backlinks/authority/page?x'' q \<longrightarrow> length q \<le> length p)
           \<and> calculateCredits ''/v1/backlinks/authority/page?x'' 4 = perRequest c + perRecord c * 4)
   \<and> \<not> (\<exists>p\<in>fst ` set CREDIT_COSTS. str_includes ''/serp/tasks'' p)
   \<and> calculateCredits ''/serp/tasks'' 4 = 0"
proof -
  have yes: "\<exists>p\<in>fst ` set CREDIT_COSTS. str_includes ''/v1/backlinks/authority/page?x'' p"
    by (simp add: CREDIT_COSTS_def)
  have no: "\<not> (\<exists>p\<in>fst ` set CREDIT_COSTS. str_includes ''/serp/tasks'' p)"
    by (simp add: CREDIT_COSTS_def)
  show ?thesis
    using yes no
      calculateCredits_longest_match [of "''/v1/backlinks/authority/page?x''" 4]
      calculateCredits_longest_match [of "''/serp/tasks''" 4]
    by presburger
qed

lemma countWrapped_first_array:
  assumes "\<forall>k\<in>set before. \<forall>xs. map_of obj k \<noteq> Some (JArr xs)"
    and "map_of obj key = Some (JArr items)"
  shows "countWrapped obj (before @ key # after) = length items"
  using assms by (induction before) (auto split: option.splits json.splits)

lemma countWrapped_no_array:
  assumes "\<forall>k\<in>set keys. \<forall>xs. map_of obj k \<noteq> Some (JArr xs)"
  shows "countWrapped obj keys = 1"
  using assms by (induction keys) (auto split: option.splits json.splits)

text \<open>
  Claim C8. \<open>countRecords\<close> returns the length of a payload that is a list; for an
  object, the length of the first known collection field (in the fixed order of
  \<open>wrapperKeys\<close>) whose value is a list; and 1 for an object without such a field and
  for every other payload. So \<open>{"keywords": [a, b, c]}\<close> counts 3 and \<open>{}\<close> counts 1.
\<close>

theorem countRecords_heuristic:
  "countRecords (JArr items) = length items
   \<and> (wrapperKeys = before @ key # after
        \<and> (\<forall>k\<in>set before. \<forall>xs. map_of obj k \<noteq> Some (JArr xs))
        \<and> map_of obj key = Some (JArr items)
       \<longrightarrow> countRecords (JObj obj) = length items)
   \<and> ((\<forall>k\<in>set wrapperKeys. \<forall>xs. map_of obj k \<noteq> Some (JArr xs)) \<longrightarrow> countRecords (JObj obj) = 1)
   \<and> ((\<forall>xs. v \<noteq> JArr xs) \<and> (\<forall>ob. v \<noteq> JObj ob) \<longrightarrow> countRecords v = 1)
   \<and> countRecords (JObj [(''keywords'', JArr [a, b, c])]) = 3
   \<and> countRecords (JObj []) = 1"
proof -
  have "countRecords (JObj obj) = length items"
    if "wrapperKeys = before @ key # after"
      and "\<forall>k\<in>set before. \<forall>xs. map_of obj k \<noteq> Some (JArr xs)"
      and "map_of obj key = Some (JArr items)"
    using that countWrapped_first_array [of before obj key items after] by simp
  moreover have "countRecords (JObj obj) = 1"
    if "\<forall>k\<in>set wrapperKeys. \<forall>xs. map_of obj k \<noteq> Some (JArr xs)"
    using that by (simp add: countWrapped_no_array)
  moreover have "countRecords v = 1" if "\<forall>xs. v \<noteq> JArr xs" and "\<forall>ob. v \<noteq> JObj ob"
    using that by (cases v) auto
  moreover have "countRecords (JObj [(''keywords'', JArr [a, b, c])]) = 3"
    by (simp add: wrapperKeys_def)
  moreover have "countRecords (JObj []) = 1"
    by (simp add: wrapperKeys_def)
  ultimately show ?thesis by simp
qed

theorem countRecords_heuristic_witness:
  "countRecords (JObj [(''pages'', JNum 4), (''backlinks'', JArr [JNull, JNull]), (''ips'', JArr [])]) = 2
   \<and> countRecords (JObj [(''total'', JNum 5)]) = 1
   \<and> countRecords (JStr ''ok'') = 1"
proof -
  let ?obj = "[(''pages'', JNum 4), (''backlinks'', JArr [JNull, JNull]), (''ips'', JArr [])]"
  have split: "wrapperKeys = [''data'', ''pages'', ''keywords''] @ ''backlinks'' #
      [''refdomains'', ''prompts'', ''summary'', ''leaderboard'', ''history'', ''ips'', ''histogram'']"
    by (simp add: wrapperKeys_def)
  have before: "\<forall>k\<in>set [''data'', ''pages'', ''keywords'']. \<forall>xs. map_of ?obj k \<noteq> Some (JArr xs)"
    by simp
  have key: "map_of ?obj ''backlinks'' = Some (JArr [JNull, JNull])"
    by simp
  have none: "\<forall>k\<in>set wrapperKeys. \<forall>xs. map_of [(''total'', JNum 5)] k \<noteq> Some (JArr xs)"
    by (simp add: wrapperKeys_def)
  have other: "(\<forall>xs. JStr ''ok'' \<noteq> JArr xs) \<and> (\<forall>ob. JStr ''ok'' \<noteq> JObj ob)"
    by simp
  from countRecords_heuristic [of "[JNull, JNull]" "[''data'', ''pages'', ''keywords'']" "''backlinks''" _ ?obj]
    split before key
  have "countRecords (JObj ?obj) = 2" by simp
  moreover from countRecords_heuristic [where obj = "[(''total'', JNum 5)]"] none
  have "countRecords (JObj [(''total'', JNum 5)]) = 1" by blast
  moreover from countRecords_heuristic [where v = "JStr ''ok''"] other
  have "countRecords (JStr ''ok'') = 1" by blast
  ultimately show ?thesis by simp
qed

section \<open>The aggregation folds\<close>

lemma upsert_grouping:
  assumes init: "\<And>x. admit x \<Longrightarrow> P (key x) (init x) [x]"
    and merge: "\<And>e x xs. admit x \<Longrightarrow> xs \<noteq> [] \<Longrightarrow> P (key x) e xs \<Longrightarrow> P (key x) (merge e x) (xs @ [x])"
  shows "distinct (map fst (foldl (upsert admit key init merge) [] cs))
     \<and> set (map fst (foldl (upsert admit key init merge) [] cs)) = key ` {x \<in> set cs. admit x}
     \<and> (\<forall>k e. map_of (foldl (upsert admit key init merge) [] cs) k = Some e
            \<longrightarrow> P k e (filter (\<lambda>x. admit x \<and> key x = k) cs))"
proof (induction cs rule: rev_induct)
  case Nil
  then show ?case by simp
next
  case (snoc x cs)
  let ?m = "foldl (upsert admit key init merge) [] cs"
  let ?m' = "upsert admit key init merge ?m x"
  have fold: "foldl (upsert admit key init merge) [] (cs @ [x]) = ?m'" by simp
  from snoc have d: "distinct (map fst ?m)"
    and ks: "set (map fst ?m) = key ` {x \<in> set cs. admit x}"
    and grp: "\<And>k e. map_of ?m k = Some e \<Longrightarrow> P k e (filter (\<lambda>x. admit x \<and> key x = k) cs)"
    by blast+
  show ?case
  proof (cases "admit x")
    case False
    then have "?m' = ?m" by (simp add: upsert_def)
    moreover have "{y \<in> set (cs @ [x]). admit y} = {y \<in> set cs. admit y}" using False by auto
    moreover have "\<And>k. filter (\<lambda>y. admit y \<and> key y = k) (cs @ [x]) = filter (\<lambda>y. admit y \<and> key y = k) cs"
      using False by simp
    ultimately show ?thesis using d ks grp unfolding fold by simp
  next
    case True
    define v where "v = (case map_of ?m (key x) of Some e \<Rightarrow> merge e x | None \<Rightarrow> init x)"
    have m': "?m' = map_set (key x) v ?m"
      using True by (simp add: upsert_def v_def split: option.splits)
    have d': "distinct (map fst ?m')" unfolding m' using d by (rule distinct_map_set)
    have ks': "set (map fst ?m') = key ` {y \<in> set (cs @ [x]). admit y}"
      unfolding m' using ks True by (auto simp: keys_map_set)
    have Pv: "P (key x) v (filter (\<lambda>y. admit y \<and> key y = key x) (cs @ [x]))"
    proof (cases "map_of ?m (key x)")
      case None
      then have "key x \<notin> set (map fst ?m)" by (simp add: map_of_eq_None_iff)
      moreover have "key y \<in> key ` {x \<in> set cs. admit x}" if "y \<in> set cs" "admit y" for y
        using that by blast
      ultimately have "filter (\<lambda>y. admit y \<and> key y = key x) cs = []"
        unfolding ks filter_empty_conv by metis
      then show ?thesis using None True init by (simp add: v_def)
    next
      case (Some e)
      then have P: "P (key x) e (filter (\<lambda>y. admit y \<and> key y = key x) cs)" by (rule grp)
      from Some have "key x \<in> set (map fst ?m)"
        by (metis map_of_eq_None_iff option.distinct(1) set_map)
      then have "filter (\<lambda>y. admit y \<and> key y = key x) cs \<noteq> []"
        unfolding ks by (auto simp: filter_empty_conv)
      then show ?thesis using Some True merge [OF True _ P] by (simp add: v_def)
    qed
    have grp': "P k e (filter (\<lambda>y. admit y \<and> key y = k) (cs @ [x]))" if "map_of ?m' k = Some e" for k e
    proof (cases "k = key x")
      case True
      with that have "e = v" by (simp add: m' map_of_map_set)
      then show ?thesis using Pv True by simp
    next
      case False
      with that have "map_of ?m k = Some e" by (simp add: m' map_of_map_set)
      then have "P k e (filter (\<lambda>y. admit y \<and> key y = k) cs)" by (rule grp)
      then show ?thesis using False by auto
    qed
    show ?thesis unfolding fold using d' ks' grp' by blast
  qed
qed

lemma foldl_contributions:
  "foldl (\<lambda>m (competitor, items). foldl (f competitor) m items) m0 results
     = foldl (\<lambda>m (competitor, item). f competitor m item) m0 (contributions results)"
proof (induction results arbitrary: m0)
  case Nil
  then show ?case by (simp add: contributions_def)
next
  case (Cons r results)
  obtain c items where r: "r = (c, items)" by (cases r)
  have inner: "foldl (\<lambda>m (competitor, item). f competitor m item) m0 (map (Pair c) items)
      = foldl (f c) m0 items" for m0
    by (induction items arbitrary: m0) auto
  show ?case using Cons.IH by (simp add: r contributions_def inner)
qed

subsection \<open>Keyword gaps\<close>

lemma gapFold_upsert:
  "(\<lambda>m (competitor, gap). gapFold competitor m gap) =
     upsert (\<lambda>_. True) (kg_keyword \<circ> snd)
       (\<lambda>(competitor, gap). \<lparr> gi_keyword = kg_keyword gap, gi_volume = kg_volume gap,
            gi_difficulty = kg_difficulty gap,
            gi_competitors = [(competitor, kg_competitor_position gap)] \<rparr>)
       (\<lambda>existing (competitor, gap).
          existing\<lparr> gi_competitors := gi_competitors existing @ [(competitor, kg_competitor_position gap)],
                     gi_volume := max (gi_volume existing) (kg_volume gap),
                     gi_difficulty := max (gi_difficulty existing) (kg_difficulty gap) \<rparr>)"
  by (auto simp: fun_eq_iff gapFold_def upsert_def split: option.splits)

lemma gap_keywordMap:
  fixes gapResults
  defines "m \<equiv> foldl (\<lambda>m (competitor, gaps). foldl (gapFold competitor) m gaps) [] gapResults"
  shows "distinct (map fst m)"
    and "set (map fst m) = (kg_keyword \<circ> snd) ` set (contributions gapResults)"
    and "map_of m k = Some e \<Longrightarrow>
           gapGroup k e (filter (\<lambda>x. kg_keyword (snd x) = k) (contributions gapResults))"
proof -
  let ?init = "\<lambda>(competitor, gap). \<lparr> gi_keyword = kg_keyword gap, gi_volume = kg_volume gap,
            gi_difficulty = kg_difficulty gap,
            gi_competitors = [(competitor, kg_competitor_position gap)] \<rparr>"
  let ?merge = "\<lambda>existing (competitor, gap).
          existing\<lparr> gi_competitors := gi_competitors existing @ [(competitor, kg_competitor_position gap)],
                     gi_volume := max (gi_volume existing) (kg_volume gap),
                     gi_difficulty := max (gi_difficulty existing) (kg_difficulty gap) \<rparr>"
  have m: "m = foldl (upsert (\<lambda>_. True) (kg_keyword \<circ> snd) ?init ?merge) [] (contributions gapResults)"
    unfolding m_def foldl_contributions gapFold_upsert ..
  have init: "gapGroup ((kg_keyword \<circ> snd) x) (?init x) [x]" for x
    by (cases x) (simp add: gapGroup_def)
  have merge: "gapGroup ((kg_keyword \<circ> snd) x) (?merge e x) (xs @ [x])"
    if "xs \<noteq> []" "gapGroup ((kg_keyword \<circ> snd) x) e xs" for e x xs
    using that Max_snoc [of xs "kg_volume \<circ> snd" x] Max_snoc [of xs "kg_difficulty \<circ> snd" x]
    by (cases x) (simp add: gapGroup_def image_image)
  note grp = upsert_grouping [of "\<lambda>_. True" gapGroup "kg_keyword \<circ> snd" ?init ?merge "contributions gapResults",
      OF init merge, folded m]
  from grp show "distinct (map fst m)" by blast
  from grp show "set (map fst m) = (kg_keyword \<circ> snd) ` set (contributions gapResults)" by simp
  from grp show "gapGroup k e (filter (\<lambda>x. kg_keyword (snd x) = k) (contributions gapResults))"
    if "map_of m k = Some e" using that by simp
qed

lemma gapOrder_le: "gapOrder a b \<le> 0 \<longleftrightarrow>
    akg_competitorCount b < akg_competitorCount a
    \<or> (akg_competitorCount b = akg_competitorCount a \<and> akg_volume b \<le> akg_volume a)"
  by (auto simp: gapOrder_def)

lemma sorted_keywordGapEntries:
  "sorted_wrt (\<lambda>a b. gapOrder a b \<le> 0) (keywordGapEntries gapResults)"
  unfolding keywordGapEntries_def Let_def
  by (rule sorted_array_sort) (auto simp: gapOrder_le)

lemma keywordGapEntries_keys:
  "map akg_keyword (map gapEntry (map snd
      (foldl (\<lambda>m (competitor, gaps). foldl (gapFold competitor) m gaps) [] gapResults)))
   = map fst (foldl (\<lambda>m (competitor, gaps). foldl (gapFold competitor) m gaps) [] gapResults)"
proof -
  let ?m = "foldl (\<lambda>m (competitor, gaps). foldl (gapFold competitor) m gaps) [] gapResults"
  have "akg_keyword (gapEntry (snd p)) = fst p" if "p \<in> set ?m" for p
  proof -
    obtain k item where p: "p = (k, item)" by (cases p)
    with that have "map_of ?m k = Some item"
      using gap_keywordMap(1) [of gapResults] by simp
    then have "gi_keyword item = k"
      using gap_keywordMap(3) [of gapResults k item] by (simp add: gapGroup_def)
    then show ?thesis by (simp add: p gapEntry_def)
  qed
  then show ?thesis by simp
qed

lemma keywordGapEntries_entry:
  assumes e: "e \<in> set (keywordGapEntries gapResults)"
  shows "\<exists>item. e = gapEntry item
          \<and> gapGroup (akg_keyword e) item
               (filter (\<lambda>x. kg_keyword (snd x) = akg_keyword e) (contributions gapResults))
          \<and> filter (\<lambda>x. kg_keyword (snd x) = akg_keyword e) (contributions gapResults) \<noteq> []"
proof -
  let ?m = "foldl (\<lambda>m (competitor, gaps). foldl (gapFold competitor) m gaps) [] gapResults"
  from e obtain k item where in_m: "(k, item) \<in> set ?m" and eq: "e = gapEntry item"
    by (auto simp: keywordGapEntries_def set_array_sort)
  from in_m have look: "map_of ?m k = Some item"
    using gap_keywordMap(1) [of gapResults] by simp
  then have grp: "gapGroup k item (filter (\<lambda>x. kg_keyword (snd x) = k) (contributions gapResults))"
    by (rule gap_keywordMap(3))
  then have k: "akg_keyword e = k" by (simp add: eq gapEntry_def gapGroup_def)
  from in_m have "k \<in> set (map fst ?m)" by force
  then have "k \<in> (kg_keyword \<circ> snd) ` set (contributions gapResults)"
    unfolding gap_keywordMap(2) .
  then have "filter (\<lambda>x. kg_keyword (snd x) = k) (contributions gapResults) \<noteq> []"
    by (auto simp: filter_empty_conv)
  with grp eq k show ?thesis by blast
qed

text \<open>
  Claim C1. For every list of per-competitor keyword-gap result lists, the aggregated
  list (before truncation) has exactly one entry per distinct keyword of the input. The
  output is that list cut by \<open>slice(0, limit)\<close> (its first \<open>limit\<close> entries for a
  non-negative limit) and is sorted by \<open>competitorCount\<close> descending, then \<open>volume\<close>
  descending. Every output entry holds, for the records contributed for its keyword:
  the maximum volume and the maximum difficulty, one (domain, position) pair per record
  in input order, their number as \<open>competitorCount\<close>, the rounded mean of the positions
  as \<open>avgPosition\<close> and the least position as \<open>bestPosition\<close>.
\<close>

theorem keyword_gap_aggregation:
  "distinct (map akg_keyword (keywordGapEntries gapResults))
   \<and> set (map akg_keyword (keywordGapEntries gapResults))
       = set (map (\<lambda>(c, g). kg_keyword g) (contributions gapResults))
   \<and> aggregateKeywordGaps gapResults limit = slice0 limit (keywordGapEntries gapResults)
   \<and> (0 \<le> limit \<longrightarrow>
        aggregateKeywordGaps gapResults limit = take (nat limit) (keywordGapEntries gapResults))
   \<and> sorted_wrt (\<lambda>a b. akg_competitorCount b < akg_competitorCount a
                    \<or> (akg_competitorCount b = akg_competitorCount a \<and> akg_volume b \<le> akg_volume a))
        (aggregateKeywordGaps gapResults limit)
   \<and> (\<forall>e\<in>set (aggregateKeywordGaps gapResults limit).
        let contributed = filter (\<lambda>(c, g). kg_keyword g = akg_keyword e) (contributions gapResults);
            positions = map (\<lambda>(c, g). kg_competitor_position g) contributed
        in contributed \<noteq> []
           \<and> akg_volume e = Max (set (map (\<lambda>(c, g). kg_volume g) contributed))
           \<and> akg_difficulty e = Max (set (map (\<lambda>(c, g). kg_difficulty g) contributed))
           \<and> akg_competitors e = map (\<lambda>(c, g). (c, kg_competitor_position g)) contributed
           \<and> akg_competitorCount e = length (akg_competitors e)
           \<and> akg_avgPosition e
               = Some (round (rat_of_int (sum_list positions) / rat_of_nat (length positions)))
           \<and> akg_bestPosition e = Some (Min (set positions)))
   \<and> getMultiCompetitorKeywordGaps getDomainKeywordsComparison ourDomain competitors source limit
       = aggregateKeywordGaps
           (map (\<lambda>competitor.
              (competitor, orElse (getDomainKeywordsComparison competitor ourDomain source) []))
              competitors) limit"
proof -
  let ?m = "foldl (\<lambda>m (competitor, gaps). foldl (gapFold competitor) m gaps) [] gapResults"
  have c7: "getMultiCompetitorKeywordGaps getDomainKeywordsComparison ourDomain competitors source limit
       = aggregateKeywordGaps
           (map (\<lambda>competitor.
              (competitor, orElse (getDomainKeywordsComparison competitor ourDomain source) []))
              competitors) limit"
    by (simp add: getMultiCompetitorKeywordGaps_def)
  have keys: "map akg_keyword (keywordGapEntries gapResults)
      = map akg_keyword (array_sort gapOrder (map gapEntry (map snd ?m)))"
    by (simp add: keywordGapEntries_def)
  have c1: "distinct (map akg_keyword (keywordGapEntries gapResults))"
    unfolding keys distinct_map_array_sort keywordGapEntries_keys
    by (rule gap_keywordMap(1))
  have "set (map akg_keyword (keywordGapEntries gapResults))
      = set (map akg_keyword (map gapEntry (map snd ?m)))"
    unfolding keys by (simp only: set_map set_array_sort)
  also have "\<dots> = set (map fst ?m)"
    by (simp only: keywordGapEntries_keys)
  finally have c2: "set (map akg_keyword (keywordGapEntries gapResults))
       = set (map (\<lambda>(c, g). kg_keyword g) (contributions gapResults))"
    unfolding gap_keywordMap(2) by (simp add: comp_def split_beta)
  have c3: "aggregateKeywordGaps gapResults limit = slice0 limit (keywordGapEntries gapResults)"
    by (simp add: aggregateKeywordGaps_def)
  have c4: "0 \<le> limit \<longrightarrow>
        aggregateKeywordGaps gapResults limit = take (nat limit) (keywordGapEntries gapResults)"
    by (simp add: aggregateKeywordGaps_def slice0_def)
  have c5: "sorted_wrt (\<lambda>a b. akg_competitorCount b < akg_competitorCount a
                    \<or> (akg_competitorCount b = akg_competitorCount a \<and> akg_volume b \<le> akg_volume a))
        (aggregateKeywordGaps gapResults limit)"
    unfolding c3 using sorted_wrt_slice0 [OF sorted_keywordGapEntries, of limit gapResults]
    by (simp add: gapOrder_le)
  have c6: "let contributed = filter (\<lambda>(c, g). kg_keyword g = akg_keyword e) (contributions gapResults);
            positions = map (\<lambda>(c, g). kg_competitor_position g) contributed
        in contributed \<noteq> []
           \<and> akg_volume e = Max (set (map (\<lambda>(c, g). kg_volume g) contributed))
           \<and> akg_difficulty e = Max (set (map (\<lambda>(c, g). kg_difficulty g) contributed))
           \<and> akg_competitors e = map (\<lambda>(c, g). (c, kg_competitor_position g)) contributed
           \<and> akg_competitorCount e = length (akg_competitors e)
           \<and> akg_avgPosition e
               = Some (round (rat_of_int (sum_list positions) / rat_of_nat (length positions)))
           \<and> akg_bestPosition e = Some (Min (set positions))"
    if "e \<in> set (aggregateKeywordGaps gapResults limit)" for e
  proof -
    have "set (aggregateKeywordGaps gapResults limit) \<subseteq> set (keywordGapEntries gapResults)"
      unfolding c3 by (rule set_slice0)
    with that have "e \<in> set (keywordGapEntries gapResults)" by auto
    from keywordGapEntries_entry [OF this] obtain item where
      eq: "e = gapEntry item"
      and grp: "gapGroup (akg_keyword e) item
               (filter (\<lambda>x. kg_keyword (snd x) = akg_keyword e) (contributions gapResults))"
      and ne: "filter (\<lambda>x. kg_keyword (snd x) = akg_keyword e) (contributions gapResults) \<noteq> []"
      by blast
    define contributed where
      "contributed = filter (\<lambda>x. kg_keyword (snd x) = akg_keyword e) (contributions gapResults)"
    have comp: "gi_competitors item = map (\<lambda>(c, g). (c, kg_competitor_position g)) contributed"
      using grp by (simp add: gapGroup_def contributed_def)
    have pos: "map snd (gi_competitors item) = map (\<lambda>x. kg_competitor_position (snd x)) contributed"
      by (simp add: comp split_beta)
    have pos_ne: "map (\<lambda>x. kg_competitor_position (snd x)) contributed \<noteq> []"
      using ne by (simp add: contributed_def)
    have "akg_volume e = Max (set (map (\<lambda>x. kg_volume (snd x)) contributed))"
      using grp by (simp add: eq gapEntry_def gapGroup_def contributed_def)
    moreover have "akg_difficulty e = Max (set (map (\<lambda>x. kg_difficulty (snd x)) contributed))"
      using grp by (simp add: eq gapEntry_def gapGroup_def contributed_def)
    moreover have "akg_competitors e = map (\<lambda>(c, g). (c, kg_competitor_position g)) contributed"
      using comp by (simp add: eq gapEntry_def)
    moreover have "akg_competitorCount e = length (akg_competitors e)"
      by (simp add: eq gapEntry_def)
    moreover have "akg_avgPosition e = Some (round (rat_of_int (sum_list
          (map (\<lambda>x. kg_competitor_position (snd x)) contributed)) / rat_of_nat (length
          (map (\<lambda>x. kg_competitor_position (snd x)) contributed))))"
      using pos_ne by (simp add: eq gapEntry_def pos Math_round_mean_def)
    moreover have "akg_bestPosition e
        = Some (Min (set (map (\<lambda>x. kg_competitor_position (snd x)) contributed)))"
      using Math_min_Min [OF pos_ne] by (simp add: eq gapEntry_def pos)
    ultimately show ?thesis
      using ne by (simp add: Let_def case_prod_beta' contributed_def)
  qed
  show ?thesis by (intro conjI ballI c1 c2 c3 c4 c5 c6 c7)
qed

lemma gapsExample_value:
  "aggregateKeywordGaps gapsExample 50 =
     [ \<lparr> akg_keyword = ''buy shoes'', akg_volume = 1200, akg_difficulty = 35,
         akg_competitorCount = 2, akg_competitors = [(''a.com'', 5), (''b.com'', 2)],
         akg_avgPosition = Some 4, akg_bestPosition = Some 2 \<rparr> ]"
  by (simp add: aggregateKeywordGaps_def keywordGapEntries_def gapsExample_def gapFold_def
      gapEntry_def Math_round_mean_def Math_min_def slice0_def round_def)

theorem keyword_gap_aggregation_witness:
  "(0 :: int) \<le> 50
   \<and> aggregateKeywordGaps gapsExample 50 = take 50 (keywordGapEntries gapsExample)
   \<and> hd (aggregateKeywordGaps gapsExample 50) \<in> set (aggregateKeywordGaps gapsExample 50)
   \<and> akg_volume (hd (aggregateKeywordGaps gapsExample 50)) = Max {1000, 1200}
   \<and> akg_difficulty (hd (aggregateKeywordGaps gapsExample 50)) = Max {30, 35}
   \<and> akg_competitors (hd (aggregateKeywordGaps gapsExample 50)) = [(''a.com'', 5), (''b.com'', 2)]
   \<and> akg_competitorCount (hd (aggregateKeywordGaps gapsExample 50)) = 2
   \<and> akg_avgPosition (hd (aggregateKeywordGaps gapsExample 50)) = Some (round ((5 + 2) / (2 :: rat)))
   \<and> akg_bestPosition (hd (aggregateKeywordGaps gapsExample 50)) = Some (Min {5, 2})"
proof -
  have mem: "hd (aggregateKeywordGaps gapsExample 50) \<in> set (aggregateKeywordGaps gapsExample 50)"
    by (simp add: gapsExample_value)
  have key: "akg_keyword (hd (aggregateKeywordGaps gapsExample 50)) = ''buy shoes''"
    by (simp add: gapsExample_value)
  have contributed: "filter (\<lambda>(c, g). kg_keyword g = ''buy shoes'') (contributions gapsExample)
      = contributions gapsExample"
    by (simp add: contributions_def gapsExample_def)
  from keyword_gap_aggregation [of gapsExample 50] mem
  have "let contributed = filter (\<lambda>(c, g). kg_keyword g
                  = akg_keyword (hd (aggregateKeywordGaps gapsExample 50))) (contributions gapsExample);
            positions = map (\<lambda>(c, g). kg_competitor_position g) contributed
        in contributed \<noteq> []
           \<and> akg_volume (hd (aggregateKeywordGaps gapsExample 50))
               = Max (set (map (\<lambda>(c, g). kg_volume g) contributed))
           \<and> akg_difficulty (hd (aggregateKeywordGaps gapsExample 50))
               = Max (set (map (\<lambda>(c, g). kg_difficulty g) contributed))
           \<and> akg_competitors (hd (aggregateKeywordGaps gapsExample 50))
               = map (\<lambda>(c, g). (c, kg_competitor_position g)) contributed
           \<and> akg_competitorCount (hd (aggregateKeywordGaps gapsExample 50))
               = length (akg_competitors (hd (aggregateKeywordGaps gapsExample 50)))
           \<and> akg_avgPosition (hd (aggregateKeywordGaps gapsExample 50))
               = Some (round (rat_of_int (sum_list positions) / rat_of_nat (length positions)))
           \<and> akg_bestPosition (hd (aggregateKeywordGaps gapsExample 50)) = Some (Min (set positions))"
    by blast
  then have props: "akg_volume (hd (aggregateKeywordGaps gapsExample 50)) = Max {1000, 1200}
   \<and> akg_difficulty (hd (aggregateKeywordGaps gapsExample 50)) = Max {30, 35}
   \<and> akg_competitors (hd (aggregateKeywordGaps gapsExample 50)) = [(''a.com'', 5), (''b.com'', 2)]
   \<and> akg_competitorCount (hd (aggregateKeywordGaps gapsExample 50)) = 2
   \<and> akg_avgPosition (hd (aggregateKeywordGaps gapsExample 50)) = Some (round ((5 + 2) / (2 :: rat)))
   \<and> akg_bestPosition (hd (aggregateKeywordGaps gapsExample 50)) = Some (Min {5, 2})"
    unfolding key contributed Let_def
    by (simp add: contributions_def gapsExample_def insert_commute)
  from keyword_gap_aggregation [of gapsExample 50]
  have "(0 :: int) \<le> 50 \<longrightarrow>
      aggregateKeywordGaps gapsExample 50 = take (nat 50) (keywordGapEntries gapsExample)"
    by blast
  then have "aggregateKeywordGaps gapsExample 50 = take 50 (keywordGapEntries gapsExample)"
    by simp
  with mem props show ?thesis by simp
qed

subsection \<open>Keyword overlaps\<close>

lemma overlapFold_upsert:
  "(\<lambda>m (competitor, overlap). overlapFold competitor m overlap) =
     upsert (\<lambda>(competitor, overlap). ko_competitorPosition overlap < ko_ourPosition overlap)
       (ko_keyword \<circ> snd)
       (\<lambda>(competitor, overlap). \<lparr> oi_keyword = ko_keyword overlap, oi_volume = ko_volume overlap,
            oi_ourPosition = ko_ourPosition overlap,
            oi_competitors = [(competitor, ko_competitorPosition overlap)] \<rparr>)
       (\<lambda>existing (competitor, overlap).
          existing\<lparr> oi_competitors := oi_competitors existing @ [(competitor, ko_competitorPosition overlap)],
                     oi_volume := max (oi_volume existing) (ko_volume overlap) \<rparr>)"
  by (auto simp: fun_eq_iff overlapFold_def upsert_def split: option.splits)

lemma overlap_keywordMap:
  fixes overlapResults
  defines "m \<equiv> foldl (\<lambda>m (competitor, overlaps). foldl (overlapFold competitor) m overlaps) []
                  overlapResults"
  shows "distinct (map fst m)"
    and "set (map fst m) = (ko_keyword \<circ> snd) `
            {x \<in> set (contributions overlapResults). ko_competitorPosition (snd x) < ko_ourPosition (snd x)}"
    and "map_of m k = Some e \<Longrightarrow>
           overlapGroup k e (filter (\<lambda>x. ko_competitorPosition (snd x) < ko_ourPosition (snd x)
                                        \<and> ko_keyword (snd x) = k) (contributions overlapResults))"
proof -
  let ?admit = "\<lambda>(competitor, overlap). ko_competitorPosition overlap < ko_ourPosition overlap"
  let ?init = "\<lambda>(competitor, overlap). \<lparr> oi_keyword = ko_keyword overlap, oi_volume = ko_volume overlap,
            oi_ourPosition = ko_ourPosition overlap,
            oi_competitors = [(competitor, ko_competitorPosition overlap)] \<rparr>"
  let ?merge = "\<lambda>existing (competitor, overlap).
          existing\<lparr> oi_competitors := oi_competitors existing @ [(competitor, ko_competitorPosition overlap)],
                     oi_volume := max (oi_volume existing) (ko_volume overlap) \<rparr>"
  have m: "m = foldl (upsert ?admit (ko_keyword \<circ> snd) ?init ?merge) [] (contributions overlapResults)"
    unfolding m_def foldl_contributions overlapFold_upsert ..
  have init: "overlapGroup ((ko_keyword \<circ> snd) x) (?init x) [x]" for x
    by (cases x) (simp add: overlapGroup_def)
  have merge: "overlapGroup ((ko_keyword \<circ> snd) x) (?merge e x) (xs @ [x])"
    if "xs \<noteq> []" "overlapGroup ((ko_keyword \<circ> snd) x) e xs" for e x xs
    using that Max_snoc [of xs "ko_volume \<circ> snd" x]
    by (cases x) (simp add: overlapGroup_def image_image)
  note grp = upsert_grouping [of ?admit overlapGroup "ko_keyword \<circ> snd" ?init ?merge
      "contributions overlapResults", OF init merge, folded m]
  have admit: "?admit = (\<lambda>x. ko_competitorPosition (snd x) < ko_ourPosition (snd x))"
    by (simp add: fun_eq_iff split_beta)
  from grp show "distinct (map fst m)" by blast
  from grp show "set (map fst m) = (ko_keyword \<circ> snd) `
            {x \<in> set (contributions overlapResults). ko_competitorPosition (snd x) < ko_ourPosition (snd x)}"
    unfolding admit by simp
  from grp show "overlapGroup k e (filter (\<lambda>x. ko_competitorPosition (snd x) < ko_ourPosition (snd x)
                                        \<and> ko_keyword (snd x) = k) (contributions overlapResults))"
    if "map_of m k = Some e" using that unfolding admit by simp
qed

lemma overlapOrder_le: "overlapOrder a b \<le> 0 \<longleftrightarrow>
    ako_competitorCount b < ako_competitorCount a
    \<or> (ako_competitorCount b = ako_competitorCount a \<and> ako_volume b \<le> ako_volume a)"
  by (auto simp: overlapOrder_def)

lemma sorted_keywordOverlapEntries:
  "sorted_wrt (\<lambda>a b. overlapOrder a b \<le> 0) (keywordOverlapEntries overlapResults)"
  unfolding keywordOverlapEntries_def Let_def
  by (rule sorted_array_sort) (auto simp: overlapOrder_le)

lemma keywordOverlapEntries_keys:
  "map ako_keyword (map overlapEntry (map snd
      (foldl (\<lambda>m (competitor, overlaps). foldl (overlapFold competitor) m overlaps) [] overlapResults)))
   = map fst (foldl (\<lambda>m (competitor, overlaps). foldl (overlapFold competitor) m overlaps) [] overlapResults)"
proof -
  let ?m = "foldl (\<lambda>m (competitor, overlaps). foldl (overlapFold competitor) m overlaps) [] overlapResults"
  have "ako_keyword (overlapEntry (snd p)) = fst p" if "p \<in> set ?m" for p
  proof -
    obtain k item where p: "p = (k, item)" by (cases p)
    with that have "map_of ?m k = Some item"
      using overlap_keywordMap(1) [of overlapResults] by simp
    then have "oi_keyword item = k"
      using overlap_keywordMap(3) [of overlapResults k item] by (simp add: overlapGroup_def)
    then show ?thesis by (simp add: p overlapEntry_def Let_def)
  qed
  then show ?thesis by simp
qed

lemma keywordOverlapEntries_entry:
  assumes e: "e \<in> set (keywordOverlapEntries overlapResults)"
  shows "\<exists>item. e = overlapEntry item
          \<and> overlapGroup (ako_keyword e) item
               (filter (\<lambda>x. ko_competitorPosition (snd x) < ko_ourPosition (snd x)
                             \<and> ko_keyword (snd x) = ako_keyword e) (contributions overlapResults))
          \<and> filter (\<lambda>x. ko_competitorPosition (snd x) < ko_ourPosition (snd x)
                             \<and> ko_keyword (snd x) = ako_keyword e) (contributions overlapResults) \<noteq> []"
proof -
  let ?m = "foldl (\<lambda>m (competitor, overlaps). foldl (overlapFold competitor) m overlaps) [] overlapResults"
  from e obtain k item where in_m: "(k, item) \<in> set ?m" and eq: "e = overlapEntry item"
    by (auto simp: keywordOverlapEntries_def set_array_sort)
  from in_m have look: "map_of ?m k = Some item"
    using overlap_keywordMap(1) [of overlapResults] by simp
  then have grp: "overlapGroup k item (filter (\<lambda>x. ko_competitorPosition (snd x) < ko_ourPosition (snd x)
                             \<and> ko_keyword (snd x) = k) (contributions overlapResults))"
    by (rule overlap_keywordMap(3))
  then have k: "ako_keyword e = k" by (simp add: eq overlapEntry_def Let_def overlapGroup_def)
  from in_m have "k \<in> set (map fst ?m)" by force
  then have "k \<in> (ko_keyword \<circ> snd) `
            {x \<in> set (contributions overlapResults). ko_competitorPosition (snd x) < ko_ourPosition (snd x)}"
    unfolding overlap_keywordMap(2) .
  then have "filter (\<lambda>x. ko_competitorPosition (snd x) < ko_ourPosition (snd x)
                             \<and> ko_keyword (snd x) = k) (contributions overlapResults) \<noteq> []"
    by (auto simp: filter_empty_conv)
  with grp eq k show ?thesis by blast
qed

text \<open>
  Claim C3, as the code has it. A record is admitted when its own \<open>competitorPosition\<close>
  is strictly less than its own \<open>ourPosition\<close>; the other records contribute nothing.
  The aggregated list (before truncation) has exactly one entry per keyword that has an
  admitted record; the output is that list cut by \<open>slice(0, limit)\<close> and is sorted by
  \<open>competitorCount\<close> descending, then \<open>volume\<close> descending. Every entry lists
  exactly the admitted records of its keyword, in input order, with their number as
  \<open>competitorCount\<close> and the maximum of their volumes as \<open>volume\<close>, and takes
  \<open>ourPosition\<close> from the first of them. When all admitted records of the keyword
  report that same \<open>ourPosition\<close>, every pair of the entry has a position below the
  entry's \<open>ourPosition\<close>. \<open>avgCompetitorPosition\<close> is the rounded mean of the
  admitted positions and \<open>positionGap\<close> is \<open>ourPosition\<close> minus that mean.
\<close>

theorem keyword_overlap_admission:
  "distinct (map ako_keyword (keywordOverlapEntries overlapResults))
   \<and> set (map ako_keyword (keywordOverlapEntries overlapResults))
       = set (map (\<lambda>(c, ov). ko_keyword ov)
               (filter (\<lambda>(c, ov). ko_competitorPosition ov < ko_ourPosition ov)
                  (contributions overlapResults)))
   \<and> aggregateKeywordOverlaps overlapResults limit
       = slice0 limit (keywordOverlapEntries overlapResults)
   \<and> set (aggregateKeywordOverlaps overlapResults limit)
       \<subseteq> set (keywordOverlapEntries overlapResults)
   \<and> sorted_wrt (\<lambda>a b. ako_competitorCount b < ako_competitorCount a
                    \<or> (ako_competitorCount b = ako_competitorCount a \<and> ako_volume b \<le> ako_volume a))
        (aggregateKeywordOverlaps overlapResults limit)
   \<and> (\<forall>e\<in>set (keywordOverlapEntries overlapResults).
     let admitted = filter (\<lambda>(c, ov). ko_competitorPosition ov < ko_ourPosition ov
                                      \<and> ko_keyword ov = ako_keyword e)
                      (contributions overlapResults);
         positions = map (\<lambda>(c, ov). ko_competitorPosition ov) admitted;
         avg = round (rat_of_int (sum_list positions) / rat_of_nat (length positions))
     in admitted \<noteq> []
        \<and> ako_volume e = Max (set (map (\<lambda>(c, ov). ko_volume ov) admitted))
        \<and> ako_competitors e = map (\<lambda>(c, ov). (c, ko_competitorPosition ov)) admitted
        \<and> ako_competitorCount e = length admitted
        \<and> ako_ourPosition e = ko_ourPosition (snd (hd admitted))
        \<and> ((\<forall>(c, ov)\<in>set admitted. ko_ourPosition ov = ako_ourPosition e)
             \<longrightarrow> (\<forall>(d, p)\<in>set (ako_competitors e). p < ako_ourPosition e))
        \<and> ako_avgCompetitorPosition e = Some avg
        \<and> ako_positionGap e = Some (ako_ourPosition e - avg))
   \<and> getMultiCompetitorKeywordOverlaps getKeywordOverlap ourDomain competitors source limit
       = aggregateKeywordOverlaps
           (map (\<lambda>competitor.
              (competitor, orElse (getKeywordOverlap ourDomain competitor source 100) []))
              competitors) limit"
proof -
  let ?m = "foldl (\<lambda>m (competitor, overlaps). foldl (overlapFold competitor) m overlaps) [] overlapResults"
  have c6: "getMultiCompetitorKeywordOverlaps getKeywordOverlap ourDomain competitors source limit
       = aggregateKeywordOverlaps
           (map (\<lambda>competitor.
              (competitor, orElse (getKeywordOverlap ourDomain competitor source 100) []))
              competitors) limit"
    by (simp add: getMultiCompetitorKeywordOverlaps_def)
  have keys: "map ako_keyword (keywordOverlapEntries overlapResults)
      = map ako_keyword (array_sort overlapOrder (map overlapEntry (map snd ?m)))"
    by (simp add: keywordOverlapEntries_def)
  have c1: "distinct (map ako_keyword (keywordOverlapEntries overlapResults))"
    unfolding keys distinct_map_array_sort keywordOverlapEntries_keys
    by (rule overlap_keywordMap(1))
  have "set (map ako_keyword (keywordOverlapEntries overlapResults))
      = set (map ako_keyword (map overlapEntry (map snd ?m)))"
    unfolding keys by (simp only: set_map set_array_sort)
  also have "\<dots> = set (map fst ?m)"
    by (simp only: keywordOverlapEntries_keys)
  finally have c2: "set (map ako_keyword (keywordOverlapEntries overlapResults))
       = set (map (\<lambda>(c, ov). ko_keyword ov)
               (filter (\<lambda>(c, ov). ko_competitorPosition ov < ko_ourPosition ov)
                  (contributions overlapResults)))"
    unfolding overlap_keywordMap(2) by (auto simp: comp_def split_beta)
  have c3: "aggregateKeywordOverlaps overlapResults limit
       = slice0 limit (keywordOverlapEntries overlapResults)"
    by (simp add: aggregateKeywordOverlaps_def)
  have c4: "sorted_wrt (\<lambda>a b. ako_competitorCount b < ako_competitorCount a
                    \<or> (ako_competitorCount b = ako_competitorCount a \<and> ako_volume b \<le> ako_volume a))
        (aggregateKeywordOverlaps overlapResults limit)"
    unfolding c3 using sorted_wrt_slice0 [OF sorted_keywordOverlapEntries, of limit overlapResults]
    by (simp add: overlapOrder_le)
  have c3': "set (aggregateKeywordOverlaps overlapResults limit)
       \<subseteq> set (keywordOverlapEntries overlapResults)"
    unfolding c3 by (rule set_slice0)
  have c5: "let admitted = filter (\<lambda>(c, ov). ko_competitorPosition ov < ko_ourPosition ov
                                      \<and> ko_keyword ov = ako_keyword e)
                      (contributions overlapResults);
         positions = map (\<lambda>(c, ov). ko_competitorPosition ov) admitted;
         avg = round (rat_of_int (sum_list positions) / rat_of_nat (length positions))
     in admitted \<noteq> []
        \<and> ako_volume e = Max (set (map (\<lambda>(c, ov). ko_volume ov) admitted))
        \<and> ako_competitors e = map (\<lambda>(c, ov). (c, ko_competitorPosition ov)) admitted
        \<and> ako_competitorCount e = length admitted
        \<and> ako_ourPosition e = ko_ourPosition (snd (hd admitted))
        \<and> ((\<forall>(c, ov)\<in>set admitted. ko_ourPosition ov = ako_ourPosition e)
             \<longrightarrow> (\<forall>(d, p)\<in>set (ako_competitors e). p < ako_ourPosition e))
        \<and> ako_avgCompetitorPosition e = Some avg
        \<and> ako_positionGap e = Some (ako_ourPosition e - avg)"
    if "e \<in> set (keywordOverlapEntries overlapResults)" for e
  proof -
    from keywordOverlapEntries_entry [OF that] obtain item where
      eq: "e = overlapEntry item"
      and grp: "overlapGroup (ako_keyword e) item
               (filter (\<lambda>x. ko_competitorPosition (snd x) < ko_ourPosition (snd x)
                             \<and> ko_keyword (snd x) = ako_keyword e) (contributions overlapResults))"
      and ne: "filter (\<lambda>x. ko_competitorPosition (snd x) < ko_ourPosition (snd x)
                             \<and> ko_keyword (snd x) = ako_keyword e) (contributions overlapResults) \<noteq> []"
      by blast
    define admitted where
      "admitted = filter (\<lambda>x. ko_competitorPosition (snd x) < ko_ourPosition (snd x)
                             \<and> ko_keyword (snd x) = ako_keyword e) (contributions overlapResults)"
    define avg where "avg = round (rat_of_int (sum_list (map (\<lambda>x. ko_competitorPosition (snd x)) admitted))
       / rat_of_nat (length (map (\<lambda>x. ko_competitorPosition (snd x)) admitted)))"
    have comp: "oi_competitors item = map (\<lambda>(c, ov). (c, ko_competitorPosition ov)) admitted"
      using grp by (simp add: overlapGroup_def admitted_def)
    have pos: "map snd (oi_competitors item) = map (\<lambda>x. ko_competitorPosition (snd x)) admitted"
      by (simp add: comp split_beta)
    have pos_ne: "map (\<lambda>x. ko_competitorPosition (snd x)) admitted \<noteq> []"
      using ne by (simp add: admitted_def)
    have vol: "ako_volume e = Max (set (map (\<lambda>x. ko_volume (snd x)) admitted))"
      using grp by (simp add: eq overlapEntry_def Let_def overlapGroup_def admitted_def)
    have our: "ako_ourPosition e = ko_ourPosition (snd (hd admitted))"
      using grp by (simp add: eq overlapEntry_def Let_def overlapGroup_def admitted_def)
    have comps: "ako_competitors e = map (\<lambda>(c, ov). (c, ko_competitorPosition ov)) admitted"
      using comp by (simp add: eq overlapEntry_def Let_def)
    have count: "ako_competitorCount e = length admitted"
      using comp by (simp add: eq overlapEntry_def Let_def)
    have avg_eq: "ako_avgCompetitorPosition e = Some avg"
      using pos_ne by (simp add: eq overlapEntry_def Let_def pos Math_round_mean_def avg_def)
    have gap: "ako_positionGap e = Some (ako_ourPosition e - avg)"
      using pos_ne by (simp add: eq overlapEntry_def Let_def pos Math_round_mean_def avg_def)
    have better: "\<forall>(d, p)\<in>set (ako_competitors e). p < ako_ourPosition e"
      if same: "\<forall>(c, ov)\<in>set admitted. ko_ourPosition ov = ako_ourPosition e"
    proof -
      have "ko_competitorPosition (snd x) < ako_ourPosition e" if "x \<in> set admitted" for x
      proof -
        from that have "ko_competitorPosition (snd x) < ko_ourPosition (snd x)"
          by (simp add: admitted_def)
        moreover from that same have "ko_ourPosition (snd x) = ako_ourPosition e"
          by (cases x) auto
        ultimately show ?thesis by simp
      qed
      then show ?thesis unfolding comps by (auto simp: split_beta)
    qed
    from ne have ne': "admitted \<noteq> []" by (simp add: admitted_def)
    show ?thesis
      using ne' vol comps count our better avg_eq gap
      unfolding Let_def case_prod_beta' admitted_def [symmetric] avg_def [symmetric]
      by (intro conjI impI) (assumption | simp add: split_beta)+
  qed
  show ?thesis by (intro conjI ballI c1 c2 c3 c3' c4 c5 c6)
qed

lemma overlapsExample_value:
  "keywordOverlapEntries overlapsExample =
     [ \<lparr> ako_keyword = ''buy shoes'', ako_volume = 950, ako_ourPosition = 8,
         ako_competitorCount = 2, ako_competitors = [(''a.com'', 2), (''c.com'', 5)],
         ako_avgCompetitorPosition = Some 4, ako_positionGap = Some 4 \<rparr> ]"
  by (simp add: keywordOverlapEntries_def overlapsExample_def overlapFold_def overlapEntry_def
      Math_round_mean_def round_def Let_def)

theorem keyword_overlap_admission_witness:
  "hd (keywordOverlapEntries overlapsExample) \<in> set (keywordOverlapEntries overlapsExample)
   \<and> aggregateKeywordOverlaps overlapsExample 50 = keywordOverlapEntries overlapsExample
   \<and> map (\<lambda>(c, ov). ko_ourPosition ov)
         (filter (\<lambda>(c, ov). ko_competitorPosition ov < ko_ourPosition ov \<and> ko_keyword ov = ''buy shoes'')
            (contributions overlapsExample)) = [8, 8]
   \<and> ako_volume (hd (keywordOverlapEntries overlapsExample)) = Max {900, 950}
   \<and> ako_competitorCount (hd (keywordOverlapEntries overlapsExample)) = 2
   \<and> ako_ourPosition (hd (keywordOverlapEntries overlapsExample)) = 8
   \<and> ako_competitors (hd (keywordOverlapEntries overlapsExample)) = [(''a.com'', 2), (''c.com'', 5)]
   \<and> list_all (\<lambda>(d, p). p < ako_ourPosition (hd (keywordOverlapEntries overlapsExample)))
        (ako_competitors (hd (keywordOverlapEntries overlapsExample)))
   \<and> ako_positionGap (hd (keywordOverlapEntries overlapsExample))
       = Some (ako_ourPosition (hd (keywordOverlapEntries overlapsExample))
                 - round ((2 + 5) / (2 :: rat)))"
proof -
  let ?e = "hd (keywordOverlapEntries overlapsExample)"
  note inst = keyword_overlap_admission [of overlapsExample 50]
  have mem: "?e \<in> set (keywordOverlapEntries overlapsExample)"
    by (simp add: overlapsExample_value)
  have key: "ako_keyword ?e = ''buy shoes''"
    by (simp add: overlapsExample_value)
  have our: "ako_ourPosition ?e = 8"
    by (simp add: overlapsExample_value)
  have admitted: "filter (\<lambda>(c, ov). ko_competitorPosition ov < ko_ourPosition ov
                                       \<and> ko_keyword ov = ''buy shoes'') (contributions overlapsExample)
      = [(''a.com'', \<lparr> ko_keyword = ''buy shoes'', ko_volume = 900, ko_ourPosition = 8,
                       ko_competitorPosition = 2 \<rparr>),
         (''c.com'', \<lparr> ko_keyword = ''buy shoes'', ko_volume = 950, ko_ourPosition = 8,
                       ko_competitorPosition = 5 \<rparr>)]"
    by (simp add: contributions_def overlapsExample_def)
  have same: "\<forall>(c, ov)\<in>set (filter (\<lambda>(c, ov). ko_competitorPosition ov < ko_ourPosition ov
                                       \<and> ko_keyword ov = ''buy shoes'') (contributions overlapsExample)).
         ko_ourPosition ov = ako_ourPosition ?e"
    unfolding admitted our by simp
  from inst have "aggregateKeywordOverlaps overlapsExample 50
      = slice0 50 (keywordOverlapEntries overlapsExample)"
    by blast
  then have whole: "aggregateKeywordOverlaps overlapsExample 50 = keywordOverlapEntries overlapsExample"
    by (simp add: overlapsExample_value slice0_def)
  from inst mem
  have "let admitted = filter (\<lambda>(c, ov). ko_competitorPosition ov < ko_ourPosition ov
                                      \<and> ko_keyword ov = ako_keyword ?e)
                      (contributions overlapsExample);
         positions = map (\<lambda>(c, ov). ko_competitorPosition ov) admitted;
         avg = round (rat_of_int (sum_list positions) / rat_of_nat (length positions))
     in admitted \<noteq> []
        \<and> ako_volume ?e = Max (set (map (\<lambda>(c, ov). ko_volume ov) admitted))
        \<and> ako_competitors ?e = map (\<lambda>(c, ov). (c, ko_competitorPosition ov)) admitted
        \<and> ako_competitorCount ?e = length admitted
        \<and> ako_ourPosition ?e = ko_ourPosition (snd (hd admitted))
        \<and> ((\<forall>(c, ov)\<in>set admitted. ko_ourPosition ov = ako_ourPosition ?e)
             \<longrightarrow> (\<forall>(d, p)\<in>set (ako_competitors ?e). p < ako_ourPosition ?e))
        \<and> ako_avgCompetitorPosition ?e = Some avg
        \<and> ako_positionGap ?e = Some (ako_ourPosition ?e - avg)"
    by blast
  then have "ako_volume ?e = Max {900, 950}
      \<and> ako_competitorCount ?e = 2
      \<and> ako_competitors ?e = [(''a.com'', 2), (''c.com'', 5)]
      \<and> ((\<forall>(c, ov)\<in>set (filter (\<lambda>(c, ov). ko_competitorPosition ov < ko_ourPosition ov
                                       \<and> ko_keyword ov = ''buy shoes'') (contributions overlapsExample)).
             ko_ourPosition ov = ako_ourPosition ?e)
             \<longrightarrow> (\<forall>(d, p)\<in>set (ako_competitors ?e). p < ako_ourPosition ?e))
      \<and> ako_positionGap ?e = Some (ako_ourPosition ?e - round ((2 + 5) / (2 :: rat)))"
    unfolding key Let_def admitted by (simp add: insert_commute)
  with same have "ako_volume ?e = Max {900, 950}
      \<and> ako_competitorCount ?e = 2
      \<and> ako_competitors ?e = [(''a.com'', 2), (''c.com'', 5)]
      \<and> list_all (\<lambda>(d, p). p < ako_ourPosition ?e) (ako_competitors ?e)
      \<and> ako_positionGap ?e = Some (ako_ourPosition ?e - round ((2 + 5) / (2 :: rat)))"
    unfolding list_all_iff by blast
  moreover have "map (\<lambda>(c, ov). ko_ourPosition ov)
         (filter (\<lambda>(c, ov). ko_competitorPosition ov < ko_ourPosition ov \<and> ko_keyword ov = ''buy shoes'')
            (contributions overlapsExample)) = [8, 8]"
    unfolding admitted by simp
  ultimately show ?thesis using mem our whole by blast
qed

text \<open>
  Claim C3 as stated fails when two competitors' result lists report different values of
  \<open>ourPosition\<close> for one keyword: the entry keeps the first (3), and the second
  competitor's position 5, admitted against its own record's 10, is not below it.
\<close>

theorem keyword_overlap_counterexample:
  "aggregateKeywordOverlaps overlapClash 50 =
     [ \<lparr> ako_keyword = ''buy shoes'', ako_volume = 1000, ako_ourPosition = 3,
         ako_competitorCount = 2, ako_competitors = [(''a.com'', 2), (''b.com'', 5)],
         ako_avgCompetitorPosition = Some 4, ako_positionGap = Some (- 1) \<rparr> ]
   \<and> (''b.com'', 5) \<in> set (ako_competitors (hd (aggregateKeywordOverlaps overlapClash 50)))
   \<and> \<not> (5 :: int) < ako_ourPosition (hd (aggregateKeywordOverlaps overlapClash 50))"
proof -
  have "aggregateKeywordOverlaps overlapClash 50 =
     [ \<lparr> ako_keyword = ''buy shoes'', ako_volume = 1000, ako_ourPosition = 3,
         ako_competitorCount = 2, ako_competitors = [(''a.com'', 2), (''b.com'', 5)],
         ako_avgCompetitorPosition = Some 4, ako_positionGap = Some (- 1) \<rparr> ]"
    by (simp add: aggregateKeywordOverlaps_def keywordOverlapEntries_def overlapClash_def
        overlapFold_def overlapEntry_def Math_round_mean_def slice0_def round_def)
  then show ?thesis by simp
qed

subsection \<open>Backlink gaps\<close>

lemma backlinkFold_upsert:
  "(\<lambda>m (competitor, ref). backlinkFold ourDomainSet competitor m ref) =
     upsert (\<lambda>(competitor, ref). rd_domain ref \<notin> ourDomainSet)
       (rd_domain \<circ> snd)
       (\<lambda>(competitor, ref). \<lparr> bi_domain = rd_domain ref,
            bi_domainInlinkRank = rd_domain_inlink_rank ref,
            bi_competitors = [(competitor, rd_backlinks ref)],
            bi_totalBacklinks = rd_backlinks ref \<rparr>)
       (\<lambda>existing (competitor, ref).
          existing\<lparr> bi_competitors := bi_competitors existing @ [(competitor, rd_backlinks ref)],
                     bi_totalBacklinks := bi_totalBacklinks existing + rd_backlinks ref,
                     bi_domainInlinkRank :=
                       max (bi_domainInlinkRank existing) (rd_domain_inlink_rank ref) \<rparr>)"
  by (auto simp: fun_eq_iff backlinkFold_def upsert_def split: option.splits)

lemma backlink_domainMap:
  fixes refDomainResults ourDomainSet
  defines "m \<equiv> foldl (\<lambda>m (competitor, refDomains).
                        foldl (backlinkFold ourDomainSet competitor) m refDomains) [] refDomainResults"
  shows "distinct (map fst m)"
    and "set (map fst m) = (rd_domain \<circ> snd) `
            {x \<in> set (contributions refDomainResults). rd_domain (snd x) \<notin> ourDomainSet}"
    and "map_of m k = Some e \<Longrightarrow>
           backlinkGroup k e (filter (\<lambda>x. rd_domain (snd x) \<notin> ourDomainSet \<and> rd_domain (snd x) = k)
                                (contributions refDomainResults))"
proof -
  let ?admit = "\<lambda>(competitor, ref). rd_domain ref \<notin> ourDomainSet"
  let ?init = "\<lambda>(competitor, ref). \<lparr> bi_domain = rd_domain ref,
            bi_domainInlinkRank = rd_domain_inlink_rank ref,
            bi_competitors = [(competitor, rd_backlinks ref)],
            bi_totalBacklinks = rd_backlinks ref \<rparr>"
  let ?merge = "\<lambda>existing (competitor, ref).
          existing\<lparr> bi_competitors := bi_competitors existing @ [(competitor, rd_backlinks ref)],
                     bi_totalBacklinks := bi_totalBacklinks existing + rd_backlinks ref,
                     bi_domainInlinkRank :=
                       max (bi_domainInlinkRank existing) (rd_domain_inlink_rank ref) \<rparr>"
  have m: "m = foldl (upsert ?admit (rd_domain \<circ> snd) ?init ?merge) [] (contributions refDomainResults)"
    unfolding m_def foldl_contributions backlinkFold_upsert ..
  have init: "backlinkGroup ((rd_domain \<circ> snd) x) (?init x) [x]" for x
    by (cases x) (simp add: backlinkGroup_def)
  have merge: "backlinkGroup ((rd_domain \<circ> snd) x) (?merge e x) (xs @ [x])"
    if "xs \<noteq> []" "backlinkGroup ((rd_domain \<circ> snd) x) e xs" for e x xs
    using that Max_snoc [of xs "rd_domain_inlink_rank \<circ> snd" x]
    by (cases x) (simp add: backlinkGroup_def image_image)
  note grp = upsert_grouping [of ?admit backlinkGroup "rd_domain \<circ> snd" ?init ?merge
      "contributions refDomainResults", OF init merge, folded m]
  have admit: "?admit = (\<lambda>x. rd_domain (snd x) \<notin> ourDomainSet)"
    by (simp add: fun_eq_iff split_beta)
  from grp show "distinct (map fst m)" by blast
  from grp show "set (map fst m) = (rd_domain \<circ> snd) `
            {x \<in> set (contributions refDomainResults). rd_domain (snd x) \<notin> ourDomainSet}"
    unfolding admit by simp
  from grp show "backlinkGroup k e (filter (\<lambda>x. rd_domain (snd x) \<notin> ourDomainSet \<and> rd_domain (snd x) = k)
                                (contributions refDomainResults))"
    if "map_of m k = Some e" using that unfolding admit by simp
qed

lemma aggregateBacklinkGaps_entries:
  "\<forall>e\<in>set (aggregateBacklinkGaps ourDomainSet refDomainResults limit).
     let refs = filter (\<lambda>(c, r). rd_domain r = abg_domain e) (contributions refDomainResults)
     in abg_domain e \<notin> ourDomainSet
        \<and> refs \<noteq> []
        \<and> abg_domainInlinkRank e = Max (set (map (\<lambda>(c, r). rd_domain_inlink_rank r) refs))
        \<and> abg_totalBacklinksToCompetitors e = sum_list (map (\<lambda>(c, r). rd_backlinks r) refs)
        \<and> abg_competitors e = map (\<lambda>(c, r). (c, rd_backlinks r)) refs
        \<and> abg_competitorCount e = length refs"
proof
  fix e
  assume e: "e \<in> set (aggregateBacklinkGaps ourDomainSet refDomainResults limit)"
  let ?m = "foldl (\<lambda>m (competitor, refDomains).
                        foldl (backlinkFold ourDomainSet competitor) m refDomains) [] refDomainResults"
  have "set (aggregateBacklinkGaps ourDomainSet refDomainResults limit)
      \<subseteq> set (array_sort backlinkOrder (map backlinkEntry (map snd ?m)))"
    unfolding aggregateBacklinkGaps_def Let_def by (rule set_slice0)
  with e have "e \<in> set (array_sort backlinkOrder (map backlinkEntry (map snd ?m)))" by auto
  then obtain k item where in_m: "(k, item) \<in> set ?m" and eq: "e = backlinkEntry item"
    by (auto simp: set_array_sort)
  from in_m have look: "map_of ?m k = Some item"
    using backlink_domainMap(1) [of ourDomainSet refDomainResults] by simp
  then have grp: "backlinkGroup k item
      (filter (\<lambda>x. rd_domain (snd x) \<notin> ourDomainSet \<and> rd_domain (snd x) = k)
         (contributions refDomainResults))"
    by (rule backlink_domainMap(3))
  then have k: "abg_domain e = k" by (simp add: eq backlinkEntry_def backlinkGroup_def)
  from in_m have "k \<in> set (map fst ?m)" by force
  then have k_in: "k \<in> (rd_domain \<circ> snd) `
            {x \<in> set (contributions refDomainResults). rd_domain (snd x) \<notin> ourDomainSet}"
    unfolding backlink_domainMap(2) .
  then have notours: "k \<notin> ourDomainSet" by auto
  define refs where "refs = filter (\<lambda>x. rd_domain (snd x) = k) (contributions refDomainResults)"
  have same: "filter (\<lambda>x. rd_domain (snd x) \<notin> ourDomainSet \<and> rd_domain (snd x) = k)
         (contributions refDomainResults) = refs"
    unfolding refs_def using notours by (intro filter_cong) auto
  from k_in have ne: "refs \<noteq> []"
    by (auto simp: refs_def filter_empty_conv)
  from grp have grp': "backlinkGroup k item refs" unfolding same .
  have "abg_domainInlinkRank e = Max (set (map (\<lambda>x. rd_domain_inlink_rank (snd x)) refs))"
    using grp' by (simp add: eq backlinkEntry_def backlinkGroup_def)
  moreover have "abg_totalBacklinksToCompetitors e = sum_list (map (\<lambda>x. rd_backlinks (snd x)) refs)"
    using grp' by (simp add: eq backlinkEntry_def backlinkGroup_def comp_def)
  moreover have "abg_competitors e = map (\<lambda>(c, r). (c, rd_backlinks r)) refs"
    using grp' by (simp add: eq backlinkEntry_def backlinkGroup_def)
  moreover have "abg_competitorCount e = length refs"
    using grp' by (simp add: eq backlinkEntry_def backlinkGroup_def)
  ultimately show "let refs = filter (\<lambda>(c, r). rd_domain r = abg_domain e) (contributions refDomainResults)
     in abg_domain e \<notin> ourDomainSet
        \<and> refs \<noteq> []
        \<and> abg_domainInlinkRank e = Max (set (map (\<lambda>(c, r). rd_domain_inlink_rank r) refs))
        \<and> abg_totalBacklinksToCompetitors e = sum_list (map (\<lambda>(c, r). rd_backlinks r) refs)
        \<and> abg_competitors e = map (\<lambda>(c, r). (c, rd_backlinks r)) refs
        \<and> abg_competitorCount e = length refs"
    using ne notours
    unfolding Let_def case_prod_beta' k refs_def [symmetric]
    by (intro conjI) (assumption | simp add: split_beta)+
qed

text \<open>
  Claim C4. For every set of own referring domains and every list of per-competitor
  referring-domain lists, no output entry has a domain of that set, however many
  competitors list it. For each output entry, \<open>domainInlinkRank\<close> is the maximum
  authority and \<open>totalBacklinksToCompetitors\<close> the sum of the backlink counts over all
  records of its domain, and \<open>competitors\<close> holds one pair per such record.
\<close>

theorem backlink_gap_exclusion:
  "(\<forall>e\<in>set (aggregateBacklinkGaps ourDomainSet refDomainResults limit).
     let refs = filter (\<lambda>(c, r). rd_domain r = abg_domain e) (contributions refDomainResults)
     in abg_domain e \<notin> ourDomainSet
        \<and> refs \<noteq> []
        \<and> abg_domainInlinkRank e = Max (set (map (\<lambda>(c, r). rd_domain_inlink_rank r) refs))
        \<and> abg_totalBacklinksToCompetitors e = sum_list (map (\<lambda>(c, r). rd_backlinks r) refs)
        \<and> abg_competitors e = map (\<lambda>(c, r). (c, rd_backlinks r)) refs
        \<and> abg_competitorCount e = length refs)
   \<and> getMultiCompetitorBacklinkGaps getBacklinksRefDomains ourDomain competitors limit
       = aggregateBacklinkGaps
           (set (map rd_domain (orElse (getBacklinksRefDomains ourDomain 200) [])))
           (map (\<lambda>competitor.
              (competitor, orElse (getBacklinksRefDomains competitor 100) []))
              competitors) limit"
  using aggregateBacklinkGaps_entries by (simp add: getMultiCompetitorBacklinkGaps_def Let_def)

lemma refDomainsExample_value:
  "aggregateBacklinkGaps {''blog.example''} refDomainsExample 50 =
     [ \<lparr> abg_domain = ''news.site'', abg_domainInlinkRank = 60, abg_competitorCount = 2,
         abg_totalBacklinksToCompetitors = 10, abg_competitors = [(''a.com'', 3), (''b.com'', 7)] \<rparr> ]"
  by (simp add: aggregateBacklinkGaps_def refDomainsExample_def backlinkFold_def backlinkEntry_def
      slice0_def)

theorem backlink_gap_exclusion_witness:
  "hd (aggregateBacklinkGaps {''blog.example''} refDomainsExample 50)
      \<in> set (aggregateBacklinkGaps {''blog.example''} refDomainsExample 50)
   \<and> abg_domain (hd (aggregateBacklinkGaps {''blog.example''} refDomainsExample 50)) \<notin> {''blog.example''}
   \<and> abg_domainInlinkRank (hd (aggregateBacklinkGaps {''blog.example''} refDomainsExample 50))
       = Max {40, 60}
   \<and> abg_totalBacklinksToCompetitors (hd (aggregateBacklinkGaps {''blog.example''} refDomainsExample 50))
       = 3 + 7"
proof -
  let ?e = "hd (aggregateBacklinkGaps {''blog.example''} refDomainsExample 50)"
  have mem: "?e \<in> set (aggregateBacklinkGaps {''blog.example''} refDomainsExample 50)"
    by (simp add: refDomainsExample_value)
  have key: "abg_domain ?e = ''news.site''"
    by (simp add: refDomainsExample_value)
  have refs: "filter (\<lambda>(c, r). rd_domain r = ''news.site'') (contributions refDomainsExample)
      = [(''a.com'', \<lparr> rd_domain = ''news.site'', rd_backlinks = 3, rd_domain_inlink_rank = 40,
                       rd_first_seen = ''2024-02-01'' \<rparr>),
         (''b.com'', \<lparr> rd_domain = ''news.site'', rd_backlinks = 7, rd_domain_inlink_rank = 60,
                       rd_first_seen = ''2024-03-01'' \<rparr>)]"
    by (simp add: contributions_def refDomainsExample_def)
  from backlink_gap_exclusion [of "{''blog.example''}" refDomainsExample 50] mem
  have "let refs = filter (\<lambda>(c, r). rd_domain r = abg_domain ?e) (contributions refDomainsExample)
     in abg_domain ?e \<notin> {''blog.example''}
        \<and> refs \<noteq> []
        \<and> abg_domainInlinkRank ?e = Max (set (map (\<lambda>(c, r). rd_domain_inlink_rank r) refs))
        \<and> abg_totalBacklinksToCompetitors ?e = sum_list (map (\<lambda>(c, r). rd_backlinks r) refs)
        \<and> abg_competitors ?e = map (\<lambda>(c, r). (c, rd_backlinks r)) refs
        \<and> abg_competitorCount ?e = length refs"
    by blast
  then have "abg_domain ?e \<notin> {''blog.example''}
      \<and> abg_domainInlinkRank ?e = Max {40, 60}
      \<and> abg_totalBacklinksToCompetitors ?e = 3 + 7"
    unfolding key Let_def refs by simp
  with mem show ?thesis by blast
qed

section \<open>AI prompt deduplication\<close>


lemma findIndex_Some:
  "findIndex P xs = Some i \<Longrightarrow> i < length xs \<and> P (xs ! i) \<and> (\<forall>j<i. \<not> P (xs ! j))"
proof (induction xs arbitrary: i)
  case Nil
  then show ?case by simp
next
  case (Cons x xs)
  show ?case
  proof (cases "P x")
    case True
    with Cons.prems show ?thesis by simp
  next
    case False
    with Cons.prems obtain k where k: "findIndex P xs = Some k" "i = Suc k" by auto
    from Cons.IH [OF k(1)] False show ?thesis
      by (auto simp: k(2) nth_Cons split: nat.splits)
  qed
qed

















lemma engineListOf_map_set:
  "engineListOf (map_set e l m) e' = (if e' = e then l else engineListOf m e')"
  by (simp add: engineListOf_def map_of_map_set)


lemma promptStep_merge:
  assumes "findIndex (\<lambda>existing. toLowerCase (ap_prompt existing) = toLowerCase (ap_prompt p))
             (engineListOf m (ap_engine p)) = Some i"
  shows "promptStep m p = map_set (ap_engine p)
           ((engineListOf m (ap_engine p))[i := (engineListOf m (ap_engine p) ! i)
              \<lparr>ap_type :=
                 (if (ap_type (engineListOf m (ap_engine p) ! i) \<in> {Brand, Brand_link}
                        \<and> ap_type p \<in> {Link, Brand_link})
                     \<or> (ap_type p \<in> {Brand, Brand_link}
                        \<and> ap_type (engineListOf m (ap_engine p) ! i) \<in> {Link, Brand_link})
                  then Brand_link else ap_type (engineListOf m (ap_engine p) ! i))\<rparr>]) m"
proof -
  have same: "l[i := (l ! i)\<lparr>ap_type := ap_type (l ! i)\<rparr>] = l" for l :: "AIPrompt list"
    by (simp add: list_update_same_conv)
  show ?thesis
    using assms by (auto simp: promptStep_def Let_def same)
qed














text \<open>
  Claim C10. When an incoming prompt matches the entry at index \<open>i\<close> of its engine's
  list, the list keeps its length and all its other entries, and the matched entry keeps
  its prompt text, engine, position, volume, answer snippet, full answer and sources:
  only its type may change, to \<open>brand_link\<close>. The other engines' lists and the order of
  the engines are unchanged. Nothing of the incoming prompt but its engine, its
  lower-cased text and its type has an effect on the result.
\<close>

theorem prompt_merge_frame:
  "findIndex (\<lambda>existing. toLowerCase (ap_prompt existing) = toLowerCase (ap_prompt p))
      (engineListOf m (ap_engine p)) = Some i
   \<longrightarrow> (let old = engineListOf m (ap_engine p);
             new = engineListOf (promptStep m p) (ap_engine p)
         in length new = length old
            \<and> (\<forall>j<length old. j \<noteq> i \<longrightarrow> new ! j = old ! j)
            \<and> new ! i = (old ! i)\<lparr>ap_type := ap_type (new ! i)\<rparr>
            \<and> ap_prompt (new ! i) = ap_prompt (old ! i)
            \<and> ap_engine (new ! i) = ap_engine (old ! i)
            \<and> ap_position (new ! i) = ap_position (old ! i)
            \<and> ap_volume (new ! i) = ap_volume (old ! i)
            \<and> ap_answer_snippet (new ! i) = ap_answer_snippet (old ! i)
            \<and> ap_answer_full (new ! i) = ap_answer_full (old ! i)
            \<and> ap_sources (new ! i) = ap_sources (old ! i)
            \<and> (ap_type (new ! i) = ap_type (old ! i) \<or> ap_type (new ! i) = Brand_link)
            \<and> map fst (promptStep m p) = map fst m
            \<and> (\<forall>engine. engine \<noteq> ap_engine p
                  \<longrightarrow> engineListOf (promptStep m p) engine = engineListOf m engine)
            \<and> (\<forall>q. ap_engine q = ap_engine p
                    \<and> toLowerCase (ap_prompt q) = toLowerCase (ap_prompt p)
                    \<and> ap_type q = ap_type p
                  \<longrightarrow> promptStep m q = promptStep m p))"
proof
  let ?P = "\<lambda>p existing. toLowerCase (ap_prompt existing) = toLowerCase (ap_prompt p)"
  assume found: "findIndex (?P p) (engineListOf m (ap_engine p)) = Some i"
  define old where "old = engineListOf m (ap_engine p)"
  define t where "t = (if (ap_type (old ! i) \<in> {Brand, Brand_link} \<and> ap_type p \<in> {Link, Brand_link})
                     \<or> (ap_type p \<in> {Brand, Brand_link} \<and> ap_type (old ! i) \<in> {Link, Brand_link})
                  then Brand_link else ap_type (old ! i))"
  from found have i: "i < length old" unfolding old_def using findIndex_Some by blast
  have step: "promptStep m p = map_set (ap_engine p) (old[i := (old ! i)\<lparr>ap_type := t\<rparr>]) m"
    unfolding t_def old_def by (rule promptStep_merge [OF found])
  have new: "engineListOf (promptStep m p) (ap_engine p) = old[i := (old ! i)\<lparr>ap_type := t\<rparr>]"
    by (simp add: step engineListOf_map_set)
  have t_cases: "t = ap_type (old ! i) \<or> t = Brand_link" by (simp add: t_def)
  from i have "old \<noteq> []" by auto
  then have "map_of m (ap_engine p) \<noteq> None"
    by (auto simp: old_def engineListOf_def split: option.splits)
  then have "ap_engine p \<in> fst ` set m" by (simp add: map_of_eq_None_iff)
  then have keys: "map fst (promptStep m p) = map fst m"
    by (simp add: step keys_map_set_old)
  have others: "engineListOf (promptStep m p) engine = engineListOf m engine"
    if "engine \<noteq> ap_engine p" for engine
    using that by (simp add: step engineListOf_map_set)
  have indep: "promptStep m q = promptStep m p"
    if q: "ap_engine q = ap_engine p" "toLowerCase (ap_prompt q) = toLowerCase (ap_prompt p)"
      "ap_type q = ap_type p" for q
  proof -
    from found have "findIndex (?P q) (engineListOf m (ap_engine q)) = Some i"
      unfolding q(1) q(2) .
    from promptStep_merge [OF this] show ?thesis
      unfolding promptStep_merge [OF found] q(1) q(3) .
  qed
  show "let old = engineListOf m (ap_engine p);
             new = engineListOf (promptStep m p) (ap_engine p)
         in length new = length old
            \<and> (\<forall>j<length old. j \<noteq> i \<longrightarrow> new ! j = old ! j)
            \<and> new ! i = (old ! i)\<lparr>ap_type := ap_type (new ! i)\<rparr>
            \<and> ap_prompt (new ! i) = ap_prompt (old ! i)
            \<and> ap_engine (new ! i) = ap_engine (old ! i)
            \<and> ap_position (new ! i) = ap_position (old ! i)
            \<and> ap_volume (new ! i) = ap_volume (old ! i)
            \<and> ap_answer_snippet (new ! i) = ap_answer_snippet (old ! i)
            \<and> ap_answer_full (new ! i) = ap_answer_full (old ! i)
            \<and> ap_sources (new ! i) = ap_sources (old ! i)
            \<and> (ap_type (new ! i) = ap_type (old ! i) \<or> ap_type (new ! i) = Brand_link)
            \<and> map fst (promptStep m p) = map fst m
            \<and> (\<forall>engine. engine \<noteq> ap_engine p
                  \<longrightarrow> engineListOf (promptStep m p) engine = engineListOf m engine)
            \<and> (\<forall>q. ap_engine q = ap_engine p
                    \<and> toLowerCase (ap_prompt q) = toLowerCase (ap_prompt p)
                    \<and> ap_type q = ap_type p
                  \<longrightarrow> promptStep m q = promptStep m p)"
    unfolding Let_def new old_def [symmetric]
  proof (intro conjI)
    show "map fst (promptStep m p) = map fst m" by (rule keys)
    show "\<forall>engine. engine \<noteq> ap_engine p
            \<longrightarrow> engineListOf (promptStep m p) engine = engineListOf m engine"
      using others by blast
    show "\<forall>q. ap_engine q = ap_engine p
                    \<and> toLowerCase (ap_prompt q) = toLowerCase (ap_prompt p)
                    \<and> ap_type q = ap_type p
                  \<longrightarrow> promptStep m q = promptStep m p"
      using indep by blast
    show "ap_type (old[i := (old ! i)\<lparr>ap_type := t\<rparr>] ! i) = ap_type (old ! i)
        \<or> ap_type (old[i := (old ! i)\<lparr>ap_type := t\<rparr>] ! i) = Brand_link"
      using i t_cases by simp
  qed (use i in simp_all)
qed

theorem prompt_merge_frame_witness:
  "findIndex (\<lambda>existing. toLowerCase (ap_prompt existing) = toLowerCase (ap_prompt bestShoesLink))
         (engineListOf [(''x'', [bestShoesBrand])] (ap_engine bestShoesLink)) = Some 0
   \<and> length (engineListOf (promptStep [(''x'', [bestShoesBrand])] bestShoesLink) ''x'') = 1
   \<and> ap_prompt (engineListOf (promptStep [(''x'', [bestShoesBrand])] bestShoesLink) ''x'' ! 0)
       = ''best shoes''
   \<and> ap_position (engineListOf (promptStep [(''x'', [bestShoesBrand])] bestShoesLink) ''x'' ! 0) = 1
   \<and> ap_volume (engineListOf (promptStep [(''x'', [bestShoesBrand])] bestShoesLink) ''x'' ! 0)
       = Some 700
   \<and> ap_answer_snippet (engineListOf (promptStep [(''x'', [bestShoesBrand])] bestShoesLink) ''x'' ! 0)
       = Some ''Try these.''
   \<and> ap_answer_full (engineListOf (promptStep [(''x'', [bestShoesBrand])] bestShoesLink) ''x'' ! 0)
       = None
   \<and> ap_sources (engineListOf (promptStep [(''x'', [bestShoesBrand])] bestShoesLink) ''x'' ! 0)
       = Some [''shoes.example'']
   \<and> map fst (promptStep [(''x'', [bestShoesBrand])] bestShoesLink) = [''x'']"
proof -
  have found: "findIndex (\<lambda>existing. toLowerCase (ap_prompt existing) = toLowerCase (ap_prompt bestShoesLink))
         (engineListOf [(''x'', [bestShoesBrand])] (ap_engine bestShoesLink)) = Some 0"
    by (simp add: engineListOf_def bestShoesBrand_def bestShoesLink_def toLowerCase_def)
  have eng: "ap_engine bestShoesLink = ''x''" by (simp add: bestShoesLink_def)
  have old: "engineListOf [(''x'', [bestShoesBrand])] ''x'' = [bestShoesBrand]"
    by (simp add: engineListOf_def)
  from prompt_merge_frame [of bestShoesLink "[(''x'', [bestShoesBrand])]" 0] found
  have "let old = engineListOf [(''x'', [bestShoesBrand])] (ap_engine bestShoesLink);
            new = engineListOf (promptStep [(''x'', [bestShoesBrand])] bestShoesLink)
                    (ap_engine bestShoesLink)
        in length new = length old
            \<and> ap_prompt (new ! 0) = ap_prompt (old ! 0)
            \<and> ap_position (new ! 0) = ap_position (old ! 0)
            \<and> ap_volume (new ! 0) = ap_volume (old ! 0)
            \<and> ap_answer_snippet (new ! 0) = ap_answer_snippet (old ! 0)
            \<and> ap_answer_full (new ! 0) = ap_answer_full (old ! 0)
            \<and> ap_sources (new ! 0) = ap_sources (old ! 0)
            \<and> map fst (promptStep [(''x'', [bestShoesBrand])] bestShoesLink)
                = map fst [(''x'', [bestShoesBrand])]"
    unfolding Let_def by blast
  moreover have "ap_prompt bestShoesBrand = ''best shoes''" "ap_position bestShoesBrand = 1"
    "ap_volume bestShoesBrand = Some 700" "ap_answer_snippet bestShoesBrand = Some ''Try these.''"
    "ap_answer_full bestShoesBrand = None" "ap_sources bestShoesBrand = Some [''shoes.example'']"
    by (simp_all add: bestShoesBrand_def)
  ultimately have "length (engineListOf (promptStep [(''x'', [bestShoesBrand])] bestShoesLink) ''x'') = 1
   \<and> ap_prompt (engineListOf (promptStep [(''x'', [bestShoesBrand])] bestShoesLink) ''x'' ! 0)
       = ''best shoes''
   \<and> ap_position (engineListOf (promptStep [(''x'', [bestShoesBrand])] bestShoesLink) ''x'' ! 0) = 1
   \<and> ap_volume (engineListOf (promptStep [(''x'', [bestShoesBrand])] bestShoesLink) ''x'' ! 0)
       = Some 700
   \<and> ap_answer_snippet (engineListOf (promptStep [(''x'', [bestShoesBrand])] bestShoesLink) ''x'' ! 0)
       = Some ''Try these.''
   \<and> ap_answer_full (engineListOf (promptStep [(''x'', [bestShoesBrand])] bestShoesLink) ''x'' ! 0)
       = None
   \<and> ap_sources (engineListOf (promptStep [(''x'', [bestShoesBrand])] bestShoesLink) ''x'' ! 0)
       = Some [''shoes.example'']
   \<and> map fst (promptStep [(''x'', [bestShoesBrand])] bestShoesLink) = [''x'']"
    unfolding Let_def eng old by simp
  with found show ?thesis by blast
qed

section \<open>Token-bucket rate limiter\<close>

lemma refill_capped: "tokens (refill now s) \<le> maxTokens s"
  by (simp add: refill_def Let_def)

lemma limiterStep_frame:
  "maxTokens (limiterStep s ev) = maxTokens s \<and> refillRate (limiterStep s ev) = refillRate s
   \<and> lastRefill (limiterStep s ev) = eventTime ev"
  by (cases ev) (simp_all add: acquire_def refill_def resume_def Let_def)

lemma limiterStep_upper:
  assumes "0 \<le> maxTokens s"
  shows "tokens (limiterStep s ev) \<le> maxTokens s"
proof (cases ev)
  case (Acquire now)
  have "tokens (refill now s) \<le> maxTokens s" by (rule refill_capped)
  then show ?thesis by (simp add: Acquire acquire_def Let_def)
next
  case (Resume now)
  then show ?thesis using assms by (simp add: resume_def)
qed

lemma limiterStep_completes: "completes s ev \<Longrightarrow> 0 \<le> tokens (limiterStep s ev)"
  by (cases ev) (auto simp: acquire_def resume_def Let_def split: if_splits)

lemma limiterStep_lower:
  assumes "0 \<le> tokens s" "0 \<le> maxTokens s" "0 \<le> refillRate s" "lastRefill s \<le> eventTime ev"
  shows "0 \<le> tokens (limiterStep s ev)"
proof (cases ev)
  case (Acquire now)
  with assms have "0 \<le> rat_of_int (now - lastRefill s) * refillRate s" by simp
  with assms have "0 \<le> tokens (refill now s)" by (simp add: refill_def Let_def)
  then show ?thesis by (simp add: Acquire acquire_def Let_def)
next
  case (Resume now)
  then show ?thesis by (simp add: resume_def)
qed

lemma limiterRun_snoc:
  "limiterRun r t (evs @ [ev]) = limiterStep (limiterRun r t evs) ev"
  by (simp add: limiterRun_def)

lemma limiterRun_frame:
  "maxTokens (limiterRun r t evs) = r \<and> refillRate (limiterRun r t evs) = r / 1000
   \<and> lastRefill (limiterRun r t evs) = last (t # map eventTime evs)"
proof (induction evs rule: rev_induct)
  case Nil
  then show ?case by (simp add: limiterRun_def newRateLimiter_def)
next
  case (snoc ev evs)
  then show ?case using limiterStep_frame [of "limiterRun r t evs" ev]
    by (simp add: limiterRun_snoc)
qed

lemma limiterRun_upper:
  assumes "0 \<le> r"
  shows "tokens (limiterRun r t evs) \<le> r"
proof (cases evs rule: rev_cases)
  case Nil
  then show ?thesis by (simp add: limiterRun_def newRateLimiter_def)
next
  case (snoc evs' ev)
  have "0 \<le> maxTokens (limiterRun r t evs')" using assms limiterRun_frame [of r t evs'] by simp
  from limiterStep_upper [OF this, of ev] show ?thesis
    using limiterRun_frame [of r t evs'] by (simp add: snoc limiterRun_snoc)
qed

lemma limiterRun_lower:
  assumes "0 \<le> r" "sorted (t # map eventTime evs)"
  shows "0 \<le> tokens (limiterRun r t evs)"
  using assms(2)
proof (induction evs rule: rev_induct)
  case Nil
  then show ?case using assms(1) by (simp add: limiterRun_def newRateLimiter_def)
next
  case (snoc ev evs)
  from snoc.prems have "sorted ((t # map eventTime evs) @ [eventTime ev])" by simp
  then have sorted: "sorted (t # map eventTime evs)"
    and all: "\<forall>x\<in>set (t # map eventTime evs). x \<le> eventTime ev"
    unfolding sorted_append by simp_all
  have "last (t # map eventTime evs) \<in> set (t # map eventTime evs)"
    by (rule last_in_set) simp
  with all have le: "last (t # map eventTime evs) \<le> eventTime ev" by blast
  note fr = limiterRun_frame [of r t evs]
  have "0 \<le> tokens (limiterStep (limiterRun r t evs) ev)"
    using snoc.IH [OF sorted] assms(1) fr le by (intro limiterStep_lower) simp_all
  then show ?case by (simp add: limiterRun_snoc)
qed

text \<open>
  Claim C6 as stated fails for the lower bound: \<open>refill\<close> adds
  \<open>elapsed * refillRate\<close> for whatever \<open>elapsed\<close> the two clock readings give, and
  caps the sum from above only. A limiter of capacity 2 created at time 1000 serves two
  calls at time 1000 and is left with 0 tokens; a third call that reads the clock at 400
  computes an elapsed time of -600 ms and leaves the count at -6/5, below 0, while its
  caller is suspended for 1100 ms.
\<close>

theorem rate_limiter_clock_counterexample:
  "tokens (limiterRun 2 1000 clockStepsBack) = - (6 / 5)
   \<and> \<not> 0 \<le> tokens (limiterRun 2 1000 clockStepsBack)
   \<and> maxTokens (limiterRun 2 1000 clockStepsBack) = 2
   \<and> fst (acquire 400 (limiterRun 2 1000 [Acquire 1000, Acquire 1000])) = Suspend (Some 1100)"
proof -
  have "\<lceil>(1100 :: rat)\<rceil> = 1100" by simp
  then show ?thesis
    by (simp add: clockStepsBack_def limiterRun_def newRateLimiter_def acquire_def refill_def
        Let_def)
qed

text \<open>
  Claim C6, as the code has it. For a non-negative configured rate (the capacity), after
  every history of the limiter the token count is at most the capacity, and a refill
  never leaves more than the capacity whatever time has elapsed. Every acquisition that
  completes (at once or after its wait) leaves a token count of at least 0; with clock
  readings that never decrease, the count is at least 0 in every state. \<open>acquire\<close>
  consumes one token exactly when at least one is available after the refill and
  otherwise suspends the caller without consuming; the resumed caller sets the count to
  exactly 0.
\<close>

theorem rate_limiter_bounds:
  assumes "0 \<le> requestsPerSecond"
  shows "maxTokens (limiterRun requestsPerSecond start events) = requestsPerSecond
       \<and> tokens (limiterRun requestsPerSecond start events) \<le> requestsPerSecond
       \<and> tokens (refill now s) \<le> maxTokens s
       \<and> (completes (limiterRun requestsPerSecond start events) ev
            \<longrightarrow> 0 \<le> tokens (limiterStep (limiterRun requestsPerSecond start events) ev))
       \<and> (sorted (start # map eventTime events)
            \<longrightarrow> 0 \<le> tokens (limiterRun requestsPerSecond start events))
       \<and> (case acquire now s of
             (Proceed, s') \<Rightarrow> 1 \<le> tokens (refill now s) \<and> tokens s' = tokens (refill now s) - 1
           | (Suspend delay, s') \<Rightarrow> tokens (refill now s) < 1 \<and> s' = refill now s)
       \<and> tokens (resume now s) = 0"
proof -
  have "case acquire now s of
             (Proceed, s') \<Rightarrow> 1 \<le> tokens (refill now s) \<and> tokens s' = tokens (refill now s) - 1
           | (Suspend delay, s') \<Rightarrow> tokens (refill now s) < 1 \<and> s' = refill now s"
    by (simp add: acquire_def Let_def)
  moreover have "tokens (resume now s) = 0" by (simp add: resume_def)
  ultimately show ?thesis
    using assms limiterRun_frame [of requestsPerSecond start events]
      limiterRun_upper [of requestsPerSecond start events]
      refill_capped [of now s]
      limiterStep_completes [of "limiterRun requestsPerSecond start events" ev]
      limiterRun_lower [of requestsPerSecond start events]
    by blast
qed

theorem rate_limiter_bounds_witness:
  "(0 :: rat) \<le> 5
   \<and> sorted (0 # map eventTime burst)
   \<and> completes (limiterRun 5 0 burst) (Acquire 400)
   \<and> 0 \<le> tokens (limiterRun 5 0 burst)
   \<and> tokens (limiterRun 5 0 burst) \<le> 5
   \<and> 0 \<le> tokens (limiterStep (limiterRun 5 0 burst) (Acquire 400))"
proof -
  have pos: "(0 :: rat) \<le> 5" by simp
  have clock: "sorted (0 # map eventTime burst)" by (simp add: burst_def)
  have fin: "completes (limiterRun 5 0 burst) (Acquire 400)"
    by (simp add: burst_def limiterRun_def newRateLimiter_def acquire_def refill_def resume_def Let_def)
  from rate_limiter_bounds [OF pos, of 0 burst _ _ "Acquire 400"] clock fin
  show ?thesis by simp
qed

section \<open>Report generation\<close>

text \<open>
  Claim C9, as the code has it. When a domain overview is available the position
  distribution is copied from its five top-N fields, and only when none is available is
  each bucket the number of fetched keyword records with a position at or under 3, 10,
  20, 50 and 100. The overview's fields come from the provider's counts per rank range
  (1-5, 6-10, 11-20, 21-50, 51-100, an absent count being 0): top10, top20, top50 and
  top100 are their running totals, and top3 is an estimate, 60 percent of the count for
  ranks 1-5, rounded.
\<close>

theorem position_distribution_source:
  "positionDistribution (Some overview) allKeywords =
     \<lparr> pd_top3 = ov_keywords_top3 overview, pd_top10 = ov_keywords_top10 overview,
       pd_top20 = ov_keywords_top20 overview, pd_top50 = ov_keywords_top50 overview,
       pd_top100 = ov_keywords_top100 overview \<rparr>
   \<and> positionDistribution (Some (getDomainOverview domain
          \<lparr> or_organic = Some organic, or_adv_keywords_count = adv \<rparr>)) allKeywords =
     \<lparr> pd_top3 = round (rat_of_int (orZero (oo_top1_5 organic)) * (6 / 10)),
       pd_top10 = orZero (oo_top1_5 organic) + orZero (oo_top6_10 organic),
       pd_top20 = orZero (oo_top1_5 organic) + orZero (oo_top6_10 organic)
                    + orZero (oo_top11_20 organic),
       pd_top50 = orZero (oo_top1_5 organic) + orZero (oo_top6_10 organic)
                    + orZero (oo_top11_20 organic) + orZero (oo_top21_50 organic),
       pd_top100 = orZero (oo_top1_5 organic) + orZero (oo_top6_10 organic)
                    + orZero (oo_top11_20 organic) + orZero (oo_top21_50 organic)
                    + orZero (oo_top51_100 organic) \<rparr>
   \<and> positionDistribution None allKeywords =
     \<lparr> pd_top3 = int (length (filter (\<lambda>k. dk_position k \<le> 3) allKeywords)),
       pd_top10 = int (length (filter (\<lambda>k. dk_position k \<le> 10) allKeywords)),
       pd_top20 = int (length (filter (\<lambda>k. dk_position k \<le> 20) allKeywords)),
       pd_top50 = int (length (filter (\<lambda>k. dk_position k \<le> 50) allKeywords)),
       pd_top100 = int (length (filter (\<lambda>k. dk_position k \<le> 100) allKeywords)) \<rparr>
   \<and> ks_positionDistribution (rp_keywords (compileReport input)) =
       positionDistribution (ci_domainOverview input) (ci_allKeywords input)"
  by (simp add: positionDistribution_def getDomainOverview_def compileReport_def Let_def)

text \<open>
  Claim C9 as stated fails for the first bucket: for a provider answer with 5, 7, 11, 13
  and 17 keywords in the five rank ranges the report shows top3 = 3, which is none of the
  counts the provider supplied and none of their running totals.
\<close>

theorem position_distribution_counterexample:
  "pd_top3 (positionDistribution (Some (getDomainOverview ''example.com'' estimateResponse)) []) = 3
   \<and> rangeCounts estimateResponse = [5, 7, 11, 13, 17]
   \<and> suppliedTopCounts estimateResponse = [5, 12, 23, 36, 53]
   \<and> (3 :: int) \<notin> set (rangeCounts estimateResponse @ suppliedTopCounts estimateResponse)"
proof -
  have "\<lfloor>(7 :: rat) / 2\<rfloor> = 3" by code_simp
  then show ?thesis
    by (simp add: positionDistribution_def getDomainOverview_def estimateResponse_def Let_def
        orZero_def rangeCounts_def suppliedTopCounts_def round_def)
qed



end
